theory Spec2Isabelle
  imports Complex_Main "HOL-Library.Sublist"
begin

section \<open>Python strings\<close>

text \<open>
  A Python \<open>str\<close> is modelled as a \<open>string\<close>: the character with code \<open>n\<close> stands for
  the code point \<open>n\<close>, so the model covers the strings whose code points are below 256.
  Slicing, splitting and joining count code points, as Python does.
\<close>

definition nl :: char where
  "nl = CHR 0x0A"

definition sp :: char where
  "sp = CHR 0x20"

definition tab :: char where
  "tab = CHR 0x09"

text \<open>\<open>sep.join(xs)\<close>\<close>

fun join_str :: "string \<Rightarrow> string list \<Rightarrow> string" where
  "join_str sep [] = []"
| "join_str sep [x] = x"
| "join_str sep (x # y # ys) = x @ sep @ join_str sep (y # ys)"

text \<open>\<open>s.split("\n")\<close>: the result is never empty, \<open>"".split("\n") == [""]\<close>.\<close>

fun split_nl :: "string \<Rightarrow> string list" where
  "split_nl [] = [[]]"
| "split_nl (c # cs) =
     (if c = nl then [] # split_nl cs
      else (case split_nl cs of
              [] \<Rightarrow> [[c]]
            | l # ls \<Rightarrow> (c # l) # ls))"

text \<open>\<open>s.replace("\n", r)\<close>\<close>

fun replace_nl :: "string \<Rightarrow> string \<Rightarrow> string" where
  "replace_nl r [] = []"
| "replace_nl r (c # cs) = (if c = nl then r @ replace_nl r cs else c # replace_nl r cs)"

text \<open>\<open>str(n)\<close> for a non-negative integer: its decimal digits.\<close>

definition digit_char :: "nat \<Rightarrow> char" where
  "digit_char d = char_of (48 + d)"

function str_nat :: "nat \<Rightarrow> string" where
  "str_nat n = (if n < 10 then [digit_char n] else str_nat (n div 10) @ [digit_char (n mod 10)])"
  by pat_completeness auto
termination
  by (relation "measure id") auto

declare str_nat.simps [simp del]

text \<open>
  \<open>s.title()\<close>: a cased character is upper-cased when the character before it is not
  cased, and lower-cased otherwise. The model is exact on ASCII; the generator applies it
  to the two level names only.
\<close>

definition is_upper :: "char \<Rightarrow> bool" where
  "is_upper c = (65 \<le> (of_char c :: nat) \<and> (of_char c :: nat) \<le> 90)"

definition is_lower :: "char \<Rightarrow> bool" where
  "is_lower c = (97 \<le> (of_char c :: nat) \<and> (of_char c :: nat) \<le> 122)"

definition to_upper :: "char \<Rightarrow> char" where
  "to_upper c = (if is_lower c then char_of ((of_char c :: nat) - 32) else c)"

definition to_lower :: "char \<Rightarrow> char" where
  "to_lower c = (if is_upper c then char_of ((of_char c :: nat) + 32) else c)"

fun title_from :: "bool \<Rightarrow> string \<Rightarrow> string" where
  "title_from previous_is_cased [] = []"
| "title_from previous_is_cased (c # cs) =
     (if previous_is_cased then to_lower c else to_upper c)
       # title_from (is_upper c \<or> is_lower c) cs"

definition str_title :: "string \<Rightarrow> string" where
  "str_title s = title_from False s"

section \<open>textwrap.dedent\<close>

text \<open>
  The standard library function the generator passes every fragment through:
  \<^verbatim>\<open>
  _whitespace_only_re = re.compile('^[ \t]+$', re.MULTILINE)
  _leading_whitespace_re = re.compile('(^[ \t]*)(?:[^ \t\n])', re.MULTILINE)

  def dedent(text):
      margin = None
      text = _whitespace_only_re.sub('', text)
      indents = _leading_whitespace_re.findall(text)
      for indent in indents:
          if margin is None:
              margin = indent
          elif indent.startswith(margin):
              pass
          elif margin.startswith(indent):
              margin = indent
          else:
              for i, (x, y) in enumerate(zip(margin, indent)):
                  if x != y:
                      margin = margin[:i]
                      break
      if margin:
          text = re.sub(r'(?m)^' + margin, '', text)
      return text
  \<close>
  In multi-line mode \<open>^\<close> matches at the start of each line and \<open>$\<close> at its end, so
  each regular expression works line by line on the text split at newlines.
\<close>

definition is_blank :: "char \<Rightarrow> bool" where
  "is_blank c = (c = sp \<or> c = tab)"

text \<open>\<open>_whitespace_only_re.sub('', text)\<close>: a line of spaces and tabs only becomes empty.\<close>

definition whitespace_only_line :: "string \<Rightarrow> string" where
  "whitespace_only_line l = (if l \<noteq> [] \<and> list_all is_blank l then [] else l)"

definition whitespace_only_sub :: "string \<Rightarrow> string" where
  "whitespace_only_sub s = join_str [nl] (map whitespace_only_line (split_nl s))"

text \<open>
  \<open>_leading_whitespace_re.findall(text)\<close>: the leading spaces and tabs of every line
  that has another character after them.
\<close>

definition leading_whitespace_findall :: "string \<Rightarrow> string list" where
  "leading_whitespace_findall s =
     map (takeWhile is_blank) (filter (\<lambda>l. dropWhile is_blank l \<noteq> []) (split_nl s))"

text \<open>The index of the first position where the two zipped strings differ, if any.\<close>

fun first_diff :: "string \<Rightarrow> string \<Rightarrow> nat option" where
  "first_diff (x # xs) (y # ys) =
     (if x \<noteq> y then Some 0 else map_option Suc (first_diff xs ys))"
| "first_diff _ _ = None"

text \<open>One iteration of the loop over \<open>indents\<close>.\<close>

definition margin_step :: "string \<Rightarrow> string option \<Rightarrow> string option" where
  "margin_step indent margin =
     (case margin of
        None \<Rightarrow> Some indent
      | Some m \<Rightarrow>
          if prefix m indent then Some m
          else if prefix indent m then Some indent
          else (case first_diff m indent of
                  Some i \<Rightarrow> Some (take i m)
                | None \<Rightarrow> Some m))"

text \<open>\<open>re.sub(r'(?m)^' + margin, '', text)\<close>: the margin is cut off each line that starts with it.\<close>

definition cut_margin :: "string \<Rightarrow> string \<Rightarrow> string" where
  "cut_margin m l = (if prefix m l then drop (length m) l else l)"

definition margin_sub :: "string \<Rightarrow> string \<Rightarrow> string" where
  "margin_sub m s = join_str [nl] (map (cut_margin m) (split_nl s))"

definition dedent :: "string \<Rightarrow> string" where
  "dedent s =
     (let s1 = whitespace_only_sub s;
          indents = leading_whitespace_findall s1;
          margin = fold margin_step indents None
      in case margin of
           None \<Rightarrow> s1
         | Some m \<Rightarrow> if m \<noteq> [] then margin_sub m s1 else s1)"

section \<open>The alert registry\<close>

text \<open>
  The three attributes of the function object \<open>alert\<close>. The counter starts at 0 and is
  only ever incremented, so it is a natural number.
\<close>

record registry =
  numid :: nat
  strid :: "string list"
  has_disable_been_called :: bool

definition initial_registry :: registry where
  "initial_registry = \<lparr>numid = 0, strid = [], has_disable_been_called = False\<rparr>"

datatype error = ValueError | RuntimeError

text \<open>An alert identifier is the integer taken from the counter or the caller's string.\<close>

datatype alert_id = IntId nat | StrId string

text \<open>How an identifier is formatted inside an f-string.\<close>

fun format_id :: "alert_id \<Rightarrow> string" where
  "format_id (IntId n) = str_nat n"
| "format_id (StrId s) = s"

text \<open>Lines 42 to 47 of the source: the identifier of the new alert, and its registration.\<close>

definition assign_id :: "registry \<Rightarrow> string option \<Rightarrow> alert_id \<times> registry" where
  "assign_id reg ID =
     (case ID of
        None \<Rightarrow> (IntId (numid reg), reg\<lparr>numid := numid reg + 1\<rparr>)
      | Some s \<Rightarrow> (StrId s, reg\<lparr>strid := strid reg @ [s]\<rparr>))"

text \<open>The f-string of \<open>alert\<close>, before \<open>textwrap.dedent\<close>; \<open>text\<close> is already re-indented.\<close>

definition alert_fstring :: "alert_id \<Rightarrow> string \<Rightarrow> string \<Rightarrow> string \<Rightarrow> string" where
  \<open>alert_fstring alert_id level title text =
     ''        <input type="hidden" class="alert-hidder" name="attr_alert-'' @ format_id alert_id @ ''" value="0"/>'' @ [nl]
   @ ''        <div class="alert alert-'' @ level @ ''">'' @ [nl]
   @ ''            <div>'' @ [nl]
   @ ''                <h3> '' @ str_title level @ '' - '' @ title @ ''</h3>'' @ [nl]
   @ ''                '' @ text @ [nl]
   @ ''            </div>'' @ [nl]
   @ ''            <label class="fakebutton">'' @ [nl]
   @ ''                <input type="checkbox" name="attr_alert-'' @ format_id alert_id @ ''" value="1" /> '' @ [CHR 0xD7] @ [nl]
   @ ''            </label>'' @ [nl]
   @ ''        </div>''\<close>

definition alert_html :: "alert_id \<Rightarrow> string \<Rightarrow> string \<Rightarrow> string \<Rightarrow> string" where
  "alert_html alert_id level title text =
     (let indent = replicate (4 * 4) sp;
          text' = replace_nl (nl # indent) text
      in dedent (alert_fstring alert_id level title text'))"

text \<open>
  \<open>alert(title, text, level=..., ID=...)\<close>. The registry outlives a raised exception, so
  the model returns the registry after the call beside the result or the error.
\<close>

definition alert ::
  "registry \<Rightarrow> string \<Rightarrow> string \<Rightarrow> string \<Rightarrow> string option \<Rightarrow> (error + string) \<times> registry" where
  "alert reg title text level ID =
     (if \<not> (level \<in> set [''info'', ''warning'']) then (Inl ValueError, reg)
      else if has_disable_been_called reg then (Inl RuntimeError, reg)
      else (let (alert_id, reg') = assign_id reg ID
            in (Inr (alert_html alert_id level title text), reg')))"

text \<open>The identifiers the closing script iterates over: \<open>list(range(alert.numid)) + alert.strid\<close>.\<close>

definition listed_ids :: "registry \<Rightarrow> alert_id list" where
  "listed_ids reg = map IntId [0..<numid reg] @ map StrId (strid reg)"

definition script_entry :: "alert_id \<Rightarrow> string" where
  \<open>script_entry i = ''"alert-'' @ format_id i @ ''": 1''\<close>

definition script_fstring :: "string \<Rightarrow> string \<Rightarrow> string" where
  \<open>script_fstring marker lines =
     ''        setAttrs({'' @ [nl]
   @ ''            "'' @ marker @ ''": 1,'' @ [nl]
   @ ''            '' @ lines @ [nl]
   @ ''        }); ''\<close>

definition disable_old_alerts :: "registry \<Rightarrow> string \<Rightarrow> string \<times> registry" where
  "disable_old_alerts reg marker =
     (let reg' = reg\<lparr>has_disable_been_called := True\<rparr>;
          indent = replicate (4 * 3) sp;
          lines = join_str ('','' @ [nl] @ indent) (map script_entry (listed_ids reg'))
      in (dedent (script_fstring marker lines), reg'))"

text \<open>A run of calls to \<open>alert\<close>, each given as (title, text, level, ID), in order.\<close>

fun run_alerts ::
  "registry \<Rightarrow> (string \<times> string \<times> string \<times> string option) list
     \<Rightarrow> (error + string) list \<times> registry" where
  "run_alerts reg [] = ([], reg)"
| "run_alerts reg ((title, text, level, ID) # calls) =
     (let (r, reg') = alert reg title text level ID;
          (rs, reg'') = run_alerts reg' calls
      in (r # rs, reg''))"

section \<open>Numbers\<close>

text \<open>
  \<open>int(s, 16)\<close> for a slice of at most two characters: surrounding whitespace is stripped,
  one sign is accepted, and what remains must be one or two hexadecimal digits. (Prefixes
  \<open>0x\<close> and underscores need three characters or more to form a number.)
\<close>

definition is_int_space :: "char \<Rightarrow> bool" where
  "is_int_space c = ((of_char c :: nat) \<in> set [9, 10, 11, 12, 13, 32, 133, 160])"

definition hex_digit :: "char \<Rightarrow> nat option" where
  "hex_digit c =
     (let n = (of_char c :: nat)
      in if 48 \<le> n \<and> n \<le> 57 then Some (n - 48)
         else if 97 \<le> n \<and> n \<le> 102 then Some (n - 87)
         else if 65 \<le> n \<and> n \<le> 70 then Some (n - 55)
         else None)"

fun hex_digits :: "nat \<Rightarrow> string \<Rightarrow> nat option" where
  "hex_digits acc [] = Some acc"
| "hex_digits acc (c # cs) =
     (case hex_digit c of
        None \<Rightarrow> None
      | Some d \<Rightarrow> hex_digits (16 * acc + d) cs)"

definition int16 :: "string \<Rightarrow> error + int" where
  "int16 s =
     (let t = rev (dropWhile is_int_space (rev (dropWhile is_int_space s)));
          (negative, u) =
            (case t of
               c # cs \<Rightarrow> if c = CHR ''-'' then (True, cs)
                         else if c = CHR ''+'' then (False, cs)
                         else (False, t)
             | [] \<Rightarrow> (False, t))
      in if u = [] then Inl ValueError
         else (case hex_digits 0 u of
                 None \<Rightarrow> Inl ValueError
               | Some n \<Rightarrow> Inr (if negative then - int n else int n)))"

text \<open>
  A Python \<open>float\<close> is an IEEE 754 double. Every value the generator computes is zero or lies
  far inside the normal range, so a double is modelled by the rational number it denotes, and
  each operation rounds its exact result to 53 significant bits, ties to even.
\<close>

function bit_length :: "int \<Rightarrow> int" where
  "bit_length n = (if n \<le> 0 then 0 else 1 + bit_length (n div 2))"
  by pat_completeness auto
termination
  by (relation "measure nat") auto

declare bit_length.simps [simp del]

text \<open>\<open>floor (log2 x)\<close> for a positive rational.\<close>

definition ilog2 :: "rat \<Rightarrow> int" where
  "ilog2 x =
     (let (p, q) = quotient_of x;
          d = bit_length p - bit_length q
      in if 2 powi d \<le> x then d else d - 1)"

definition round_half_even :: "rat \<Rightarrow> int" where
  "round_half_even q =
     (let n = \<lfloor>q\<rfloor>; r = q - of_int n
      in if r < 1 / 2 then n
         else if 1 / 2 < r then n + 1
         else if even n then n else n + 1)"

definition round_double :: "rat \<Rightarrow> rat" where
  "round_double x =
     (if x = 0 then 0
      else (let ulp = 2 powi (ilog2 \<bar>x\<bar> - 52)
            in sgn x * of_int (round_half_even (\<bar>x\<bar> / ulp)) * ulp))"

definition float_div :: "int \<Rightarrow> int \<Rightarrow> rat" where
  "float_div a b = round_double (of_int a / of_int b)"

definition float_mul :: "rat \<Rightarrow> rat \<Rightarrow> rat" where
  "float_mul x y = round_double (x * y)"

definition float_add :: "rat \<Rightarrow> rat \<Rightarrow> rat" where
  "float_add x y = round_double (x + y)"

text \<open>The decimal literal \<open>0.dddd\<close>, read as the nearest double.\<close>

definition float_literal :: "int \<Rightarrow> rat" where
  "float_literal ten_thousandths = round_double (of_int ten_thousandths / 10000)"

definition luma :: "int \<Rightarrow> int \<Rightarrow> int \<Rightarrow> rat" where
  "luma R G B =
     (let r = float_div R 255; g = float_div G 255; b = float_div B 255
      in float_add
           (float_add (float_mul (float_literal 2126) r) (float_mul (float_literal 7152) g))
           (float_mul (float_literal 722) b))"


section \<open>Colours of the custom roll template\<close>

text \<open>A row of \<open>css_colors.csv\<close>, as \<open>csv.DictReader\<close> hands it over.\<close>

record color_def =
  color :: string
  hex :: string

text \<open>
  \<open>hex_color = color_def["hex"].lstrip("#")\<close> and the three integers
  \<open>int(hex_color[2 * i : 2 * i + 2], 16)\<close>, read in order; the first slice that is not a
  number raises.
\<close>

definition hex_slice :: "string \<Rightarrow> nat \<Rightarrow> string" where
  "hex_slice hex_color i = take 2 (drop (2 * i) hex_color)"

definition color_channels :: "string \<Rightarrow> error + (int \<times> int \<times> int)" where
  "color_channels h =
     (let hex_color = dropWhile (\<lambda>c. c = CHR ''#'') h
      in case int16 (hex_slice hex_color 0) of
           Inl e \<Rightarrow> Inl e
         | Inr R \<Rightarrow>
             (case int16 (hex_slice hex_color 1) of
                Inl e \<Rightarrow> Inl e
              | Inr G \<Rightarrow>
                  (case int16 (hex_slice hex_color 2) of
                     Inl e \<Rightarrow> Inl e
                   | Inr B \<Rightarrow> Inr (R, G, B))))"

definition lines_header :: "color_def \<Rightarrow> string list" where
  "lines_header d =
     [''.sheet-rolltemplate-custom .sheet-crt-container.sheet-crt-color-'' @ color d @ '' {'',
      ''    --header-bg-color: '' @ hex d @ '';'']"

definition lines_rolls :: "color_def \<Rightarrow> string list" where
  "lines_rolls d =
     [''.sheet-rolltemplate-custom .sheet-crt-container.sheet-crt-rlcolor-'' @ color d
        @ '' .inlinerollresult {'',
      ''    --roll-bg-color: '' @ hex d @ '';'']"

definition lines_buttons :: "color_def \<Rightarrow> string list" where
  "lines_buttons d =
     [''.sheet-rolltemplate-custom .sheet-crt-container.sheet-crt-btcolor-'' @ color d @ '' a {'',
      ''    --button-bg-color: '' @ hex d @ '';'']"

text \<open>The body of the loop over the rows: the three rule blocks of one colour.\<close>

definition color_rules :: "color_def \<Rightarrow> error + string list" where
  "color_rules d =
     (case color_channels (hex d) of
        Inl e \<Rightarrow> Inl e
      | Inr (R, G, B) \<Rightarrow>
          (let l = luma R G B;
               header = lines_header d
                 @ (if 1 / 2 < l then [''    --header-text-color: #000;''] else []);
               buttons = lines_buttons d
                 @ (if 1 / 2 < l then [''    --button-text-color: #000;''] else []);
               rolls = lines_rolls d
                 @ (if l < 1 / 2 then [''    --roll-text-color: #FFF;''] else [])
           in Inr (map (\<lambda>lines. join_str [nl] (lines @ [''}''])) [header, rolls, buttons])))"

fun css_rules :: "string list \<Rightarrow> color_def list \<Rightarrow> error + string list" where
  "css_rules acc [] = Inr acc"
| "css_rules acc (d # ds) =
     (case color_rules d of
        Inl e \<Rightarrow> Inl e
      | Inr rules \<Rightarrow> css_rules (acc @ rules) ds)"

definition custom_rt_color_css :: "color_def list \<Rightarrow> error + string" where
  "custom_rt_color_css defs =
     (case css_rules [] defs of
        Inl e \<Rightarrow> Inl e
      | Inr rules \<Rightarrow> Inr (''*/'' @ [nl] @ join_str [nl] rules @ [nl] @ ''/*''))"

section \<open>The export table\<close>

text \<open>
  What a name of the table is bound to: a module, a function, a string, or a value of a tab
  module, whose tables are not part of this file and are taken as given.
\<close>

datatype 'v export = Module string | Function string | Text string | Tab 'v

definition botch_separate :: string where
  "botch_separate =
     ''&{template:botch} {{roll= ''
     @ (''?{'' @ [CHR 0x40] @ ''{botch_num_i18n} | ''
        @ join_str ''|''
            (map (\<lambda>n. str_nat n @ '' '' @ (if n = 1 then ''Die'' else ''Dice'') @ '',''
                         @ join_str '' '' (replicate n ''[[1d10cf10cs0]]''))
               [1..<9])
        @ ''}'')
     @ '' }} {{type=Grouped}}''"

text \<open>The dictionary literal of line 91 and the two entries added before the tabs are merged.\<close>

definition base_exports ::
  "'v export \<Rightarrow> 'v export \<Rightarrow> 'v export \<Rightarrow> string \<Rightarrow> (string \<rightharpoonup> 'v export)" where
  "base_exports xp translation_attrs translation_attrs_setup css =
     [''markdown'' \<mapsto> Module ''markdown'',
      ''xp'' \<mapsto> xp,
      ''alert'' \<mapsto> Function ''alert'',
      ''disable_old_alerts'' \<mapsto> Function ''disable_old_alerts'',
      ''translation_attrs'' \<mapsto> translation_attrs,
      ''translation_attrs_setup'' \<mapsto> translation_attrs_setup,
      ''html_header'' \<mapsto> Text (''<!-- DO NOT MODIFY !'' @ [nl]
         @ ''This file is automatically generated from a template. Any change will be overwritten''
         @ [nl] @ ''-->''),
      ''css_header'' \<mapsto> Text (''DO NOT MODIFY !'' @ [nl]
         @ ''This file is automatically generated from a template. Any change will be overwritten''
         @ [nl]),
      ''botch_separate'' \<mapsto> Text botch_separate,
      ''custom_rt_color_css'' \<mapsto> Text css]"

text \<open>\<open>d.update(other)\<close>: every key of \<open>other\<close> is bound in \<open>d\<close> to its value in \<open>other\<close>.\<close>

definition dict_update :: "('k \<rightharpoonup> 'a) \<Rightarrow> ('k \<rightharpoonup> 'a) \<Rightarrow> ('k \<rightharpoonup> 'a)" where
  "dict_update d other = d ++ other"

text \<open>
  The module as a whole: the table after the six updates, or the error that stops the import
  when a colour of the CSV file cannot be read.
\<close>

definition EXPORTS ::
  "'v export \<Rightarrow> 'v export \<Rightarrow> 'v export \<Rightarrow> color_def list
     \<Rightarrow> (string \<rightharpoonup> 'v export) \<Rightarrow> (string \<rightharpoonup> 'v export) \<Rightarrow> (string \<rightharpoonup> 'v export)
     \<Rightarrow> (string \<rightharpoonup> 'v export) \<Rightarrow> (string \<rightharpoonup> 'v export) \<Rightarrow> (string \<rightharpoonup> 'v export)
     \<Rightarrow> error + (string \<rightharpoonup> 'v export)" where
  "EXPORTS xp translation_attrs translation_attrs_setup colors
       tab_1_character tab_2_abilities tab_3_magic tab_4_combat tab_5_spells tab_6_sheet =
     (case custom_rt_color_css colors of
        Inl e \<Rightarrow> Inl e
      | Inr css \<Rightarrow>
          Inr (dict_update (dict_update (dict_update (dict_update (dict_update (dict_update
                 (base_exports xp translation_attrs translation_attrs_setup css)
                 tab_1_character) tab_2_abilities) tab_3_magic) tab_4_combat) tab_5_spells)
                 tab_6_sheet))"

text \<open>
  A colour of the form \<open>#RRGGBB\<close>: a hash sign and six hexadecimal digits. The blocks of a
  colour are the rules the loop body yields for it.
\<close>

definition wf_hex :: "string \<Rightarrow> bool" where
  "wf_hex h =
     (case h of
        [] \<Rightarrow> False
      | c # hs \<Rightarrow> c = CHR ''#'' \<and> length hs = 6 \<and> list_all (\<lambda>c. hex_digit c \<noteq> None) hs)"

definition blocks_of :: "color_def \<Rightarrow> string list" where
  "blocks_of d = (case color_rules d of Inl e \<Rightarrow> [] | Inr rules \<Rightarrow> rules)"

section \<open>The fragments line by line\<close>

text \<open>The lines of the f-string of \<open>alert\<close>, as they stand in the source.\<close>

definition alert_fstring_lines :: "alert_id \<Rightarrow> string \<Rightarrow> string \<Rightarrow> string \<Rightarrow> string list" where
  \<open>alert_fstring_lines alert_id level title text =
     [''        <input type="hidden" class="alert-hidder" name="attr_alert-'' @ format_id alert_id @ ''" value="0"/>'',
      ''        <div class="alert alert-'' @ level @ ''">'',
      ''            <div>'',
      ''                <h3> '' @ str_title level @ '' - '' @ title @ ''</h3>'',
      ''                '' @ text,
      ''            </div>'',
      ''            <label class="fakebutton">'',
      ''                <input type="checkbox" name="attr_alert-'' @ format_id alert_id @ ''" value="1" /> '' @ [CHR 0xD7],
      ''            </label>'',
      ''        </div>'']\<close>

text \<open>The same lines once the margin of eight spaces is cut and a blank text line is emptied.\<close>

definition banner_lines :: "alert_id \<Rightarrow> string \<Rightarrow> string \<Rightarrow> string \<Rightarrow> string list" where
  \<open>banner_lines alert_id level title text =
     [''<input type="hidden" class="alert-hidder" name="attr_alert-'' @ format_id alert_id @ ''" value="0"/>'',
      ''<div class="alert alert-'' @ level @ ''">'',
      ''    <div>'',
      ''        <h3> '' @ str_title level @ '' - '' @ title @ ''</h3>'',
      (if list_all is_blank text then [] else ''        '' @ text),
      ''    </div>'',
      ''    <label class="fakebutton">'',
      ''        <input type="checkbox" name="attr_alert-'' @ format_id alert_id @ ''" value="1" /> '' @ [CHR 0xD7],
      ''    </label>'',
      ''</div>'']\<close>

text \<open>The hidden input element that opens a banner.\<close>

definition hidden_input :: "alert_id \<Rightarrow> string" where
  \<open>hidden_input alert_id =
     ''<input type="hidden" class="alert-hidder" name="attr_alert-'' @ format_id alert_id @ ''" value="0"/>''\<close>

text \<open>The explicit identifiers passed in a run of calls, in call order, and the number of calls without one.\<close>

definition explicit_ids :: "(string \<times> string \<times> string \<times> string option) list \<Rightarrow> string list" where
  "explicit_ids calls = List.map_filter (\<lambda>(title, text, level, ID). ID) calls"

definition auto_count :: "(string \<times> string \<times> string \<times> string option) list \<Rightarrow> nat" where
  "auto_count calls = length (filter (\<lambda>(title, text, level, ID). ID = None) calls)"

text \<open>The lines that \<open>{lines}\<close> spans in the f-string of the closing script, and a line with the margin of eight spaces cut.\<close>

fun entry_lines :: "string list \<Rightarrow> string list" where
  "entry_lines [] = [''            '']"
| "entry_lines [e] = [''            '' @ e]"
| "entry_lines (e # e' # es) = (''            '' @ e @ '','') # entry_lines (e' # es)"

definition cut8 :: "string \<Rightarrow> string" where
  "cut8 l = (if list_all is_blank l then [] else drop (length ''        '') l)"

section \<open>Splitting, joining and dedenting\<close>

lemma split_nl_not_Nil [simp]: "split_nl s \<noteq> []"
  by (induction s) (auto split: list.splits)

lemma split_nl_no_nl: "nl \<notin> set s \<Longrightarrow> split_nl s = [s]"
  by (induction s) auto

lemma split_nl_append_nl: "split_nl (a @ nl # b) = split_nl a @ split_nl b"
  by (induction a) (auto split: list.splits)

lemma split_nl_lines_no_nl: "l \<in> set (split_nl s) \<Longrightarrow> nl \<notin> set l"
  by (induction s arbitrary: l) (auto split: list.splits if_splits)

lemma join_str_Cons: "ys \<noteq> [] \<Longrightarrow> join_str sep (x # ys) = x @ sep @ join_str sep ys"
  by (cases ys) auto

lemma join_str_append:
  "xs \<noteq> [] \<Longrightarrow> ys \<noteq> [] \<Longrightarrow> join_str sep (xs @ ys) = join_str sep xs @ sep @ join_str sep ys"
  by (induction sep xs rule: join_str.induct) (auto simp: join_str_Cons)

lemma split_join_nl:
  "ls \<noteq> [] \<Longrightarrow> \<forall>l \<in> set ls. nl \<notin> set l \<Longrightarrow> split_nl (join_str [nl] ls) = ls"
proof (induction "[nl]" ls rule: join_str.induct)
  case 1
  then show ?case by simp
next
  case (2 x)
  then show ?case by (simp add: split_nl_no_nl)
next
  case (3 x y ys)
  then show ?case by (simp add: split_nl_append_nl split_nl_no_nl)
qed

lemma join_str_Cons_Cons: "join_str sep ((a # x) # xs) = a # join_str sep (x # xs)"
  by (cases xs) auto

lemma join_split_nl: "join_str [nl] (split_nl s) = s"
  by (induction s) (auto split: list.splits simp: join_str_Cons join_str_Cons_Cons)

lemma first_diff_prefix:
  "prefix m x \<Longrightarrow> prefix m i \<Longrightarrow> first_diff x i = Some j \<Longrightarrow> prefix m (take j x)"
proof (induction m arbitrary: x i j)
  case Nil
  then show ?case by simp
next
  case (Cons a m)
  from Cons.prems(1,2) obtain x' i' where xi: "x = a # x'" "i = a # i'" "prefix m x'" "prefix m i'"
    by (auto simp: prefix_def)
  with Cons.prems(3) obtain j' where j: "j = Suc j'" "first_diff x' i' = Some j'"
    by auto
  from Cons.IH [OF xi(3) xi(4) j(2)] show ?case
    by (simp add: xi j)
qed

lemma margin_step_prefix:
  assumes "prefix m x" "prefix m i"
  shows "\<exists>y. margin_step i (Some x) = Some y \<and> prefix m y
           \<and> (x = m \<longrightarrow> y = m) \<and> (i = m \<longrightarrow> y = m)"
proof (cases "prefix x i")
  case True
  with assms show ?thesis
    by (auto simp: margin_step_def dest: prefix_order.antisym)
next
  case nx: False
  show ?thesis
  proof (cases "prefix i x")
    case True
    with nx assms show ?thesis
      by (auto simp: margin_step_def)
  next
    case False
    with nx assms show ?thesis
      by (cases "first_diff x i") (auto simp: margin_step_def first_diff_prefix)
  qed
qed

lemma fold_margin_uniform:
  "prefix m x \<Longrightarrow> \<forall>i \<in> set is. prefix m i \<Longrightarrow> x = m \<or> m \<in> set is
     \<Longrightarrow> fold margin_step is (Some x) = Some m"
proof (induction "is" arbitrary: x)
  case Nil
  then show ?case by simp
next
  case (Cons i "is")
  from Cons.prems obtain y where y: "margin_step i (Some x) = Some y" "prefix m y"
      "x = m \<longrightarrow> y = m" "i = m \<longrightarrow> y = m"
    using margin_step_prefix [of m x i] by auto
  from Cons.prems y have "y = m \<or> m \<in> set is"
    by auto
  with Cons.IH [OF y(2)] Cons.prems(2) y(1) show ?case
    by simp
qed

lemma fold_margin_None:
  assumes "\<forall>i \<in> set is. prefix m i" "m \<in> set is"
  shows "fold margin_step is None = Some m"
proof (cases "is")
  case Nil
  with assms show ?thesis by simp
next
  case (Cons i rest)
  have "margin_step i None = Some i"
    by (simp add: margin_step_def)
  with Cons assms fold_margin_uniform [of m i rest] show ?thesis
    by auto
qed

lemma prefix_takeWhile_blank:
  "prefix m l \<Longrightarrow> list_all is_blank m \<Longrightarrow> prefix m (takeWhile is_blank l)"
  by (auto simp: prefix_def list_all_iff)

lemma dropWhile_blank_Nil: "(dropWhile is_blank l = []) = list_all is_blank l"
  by (auto simp: list_all_iff)

lemma whitespace_only_line_no_nl: "nl \<notin> set l \<Longrightarrow> nl \<notin> set (whitespace_only_line l)"
  by (simp add: whitespace_only_line_def)

lemma whitespace_only_sub_join: "ls \<noteq> [] \<Longrightarrow> \<forall>l \<in> set ls. nl \<notin> set l \<Longrightarrow> whitespace_only_sub (join_str [nl] ls) = join_str [nl] (map whitespace_only_line ls)"
  by (simp add: whitespace_only_sub_def split_join_nl)

lemma split_whitespace_only_join: "ls \<noteq> [] \<Longrightarrow> \<forall>l \<in> set ls. nl \<notin> set l \<Longrightarrow> split_nl (join_str [nl] (map whitespace_only_line ls)) = map whitespace_only_line ls"
  by (rule split_join_nl) (auto simp: whitespace_only_line_no_nl)

lemma whitespace_only_line_keep: "\<not> list_all is_blank l \<Longrightarrow> whitespace_only_line l = l"
  by (simp add: whitespace_only_line_def)

lemma whitespace_only_line_blank: "list_all is_blank l \<Longrightarrow> whitespace_only_line l = []"
  by (simp add: whitespace_only_line_def)

lemma dropWhile_whitespace_only_line:
  "(dropWhile is_blank (whitespace_only_line l) = []) = list_all is_blank l"
proof (cases "list_all is_blank l")
  case True
  then show ?thesis by (simp add: whitespace_only_line_blank)
next
  case False
  then show ?thesis
    by (simp add: whitespace_only_line_keep [OF False] dropWhile_blank_Nil del: dropWhile_eq_Nil_conv)
qed

lemma filter_map_keep:
  "(\<And>l. P (f l) = Q l) \<Longrightarrow> (\<And>l. Q l \<Longrightarrow> f l = l) \<Longrightarrow> filter P (map f ls) = filter Q ls"
  by (induction ls) auto

lemma filter_whitespace_only: "filter (\<lambda>l. dropWhile is_blank l \<noteq> []) (map whitespace_only_line ls) = filter (\<lambda>l. \<not> list_all is_blank l) ls"
proof (rule filter_map_keep)
  show "(dropWhile is_blank (whitespace_only_line l) \<noteq> []) = (\<not> list_all is_blank l)" for l
    using dropWhile_whitespace_only_line [of l] by blast
  show "\<not> list_all is_blank l \<Longrightarrow> whitespace_only_line l = l" for l
    by (rule whitespace_only_line_keep)
qed

lemma cut_whitespace_only: "\<forall>l \<in> set ls. list_all is_blank l \<or> prefix m l \<Longrightarrow> m \<noteq> [] \<Longrightarrow> map (cut_margin m) (map whitespace_only_line ls) =
      map (\<lambda>l. if list_all is_blank l then [] else drop (length m) l) ls"
  by (auto simp: cut_margin_def whitespace_only_line_def)

lemma whitespace_only_drop0: "map whitespace_only_line ls =
      map (\<lambda>l. if list_all is_blank l then [] else drop (length ([]::string)) l) ls"
  by (auto simp: whitespace_only_line_def)

lemma dedent_uniform:
  assumes ne: "ls \<noteq> []"
    and nonl: "\<forall>l \<in> set ls. nl \<notin> set l"
    and pre: "\<forall>l \<in> set ls. list_all is_blank l \<or> prefix m l"
    and ex: "\<exists>l \<in> set ls. \<not> list_all is_blank l \<and> takeWhile is_blank l = m"
  shows "dedent (join_str [nl] ls) =
           join_str [nl] (map (\<lambda>l. if list_all is_blank l then [] else drop (length m) l) ls)"
proof -
  let ?ls1 = "map whitespace_only_line ls"
  let ?s1 = "join_str [nl] ?ls1"
  let ?keep = "filter (\<lambda>l. \<not> list_all is_blank l) ls"
  have s1: "whitespace_only_sub (join_str [nl] ls) = ?s1"
    using ne nonl by (rule whitespace_only_sub_join)
  have split1: "split_nl ?s1 = ?ls1"
    using ne nonl by (rule split_whitespace_only_join)
  have blank_m: "list_all is_blank m"
  proof -
    from ex obtain l where "takeWhile is_blank l = m" by blast
    then have "set m \<subseteq> {c. is_blank c}"
      by (auto dest: set_takeWhileD)
    then show ?thesis by (auto simp: list_all_iff)
  qed
  have indents: "leading_whitespace_findall ?s1 = map (takeWhile is_blank) ?keep"
    unfolding leading_whitespace_findall_def split1 filter_whitespace_only ..
  have all_pre: "\<forall>i \<in> set (map (takeWhile is_blank) ?keep). prefix m i"
  proof
    fix i assume "i \<in> set (map (takeWhile is_blank) ?keep)"
    then obtain l where l: "l \<in> set ls" "\<not> list_all is_blank l" "i = takeWhile is_blank l"
      by auto
    with pre have "prefix m l" by blast
    with blank_m l(3) show "prefix m i"
      by (simp add: prefix_takeWhile_blank)
  qed
  have mem: "m \<in> set (map (takeWhile is_blank) ?keep)"
  proof -
    from ex obtain l where "l \<in> set ls" "\<not> list_all is_blank l" "takeWhile is_blank l = m"
      by blast
    then have "l \<in> set ?keep" by simp
    with \<open>takeWhile is_blank l = m\<close> show ?thesis
      by (metis imageI set_map)
  qed
  have margin: "fold margin_step (leading_whitespace_findall ?s1) None = Some m"
    unfolding indents using all_pre mem by (rule fold_margin_None)
  have ded: "dedent (join_str [nl] ls) = (if m \<noteq> [] then margin_sub m ?s1 else ?s1)"
    unfolding dedent_def s1 Let_def margin by simp
  show ?thesis
  proof (cases "m = []")
    case True
    have "?ls1 = map (\<lambda>l. if list_all is_blank l then [] else drop (length ([]::string)) l) ls"
      by (rule whitespace_only_drop0)
    then have "?s1 = join_str [nl]
        (map (\<lambda>l. if list_all is_blank l then [] else drop (length m) l) ls)"
      unfolding True by (rule arg_cong)
    with True show ?thesis
      unfolding ded by (simp only: if_False simp_thms)
  next
    case False
    have "margin_sub m ?s1 = join_str [nl] (map (cut_margin m) ?ls1)"
      unfolding margin_sub_def split1 ..
    also have "map (cut_margin m) ?ls1 =
        map (\<lambda>l. if list_all is_blank l then [] else drop (length m) l) ls"
      using pre False by (rule cut_whitespace_only)
    finally show ?thesis
      unfolding ded using False by simp
  qed
qed

lemma digit_char_not_nl: "d < 10 \<Longrightarrow> digit_char d \<noteq> nl"
proof
  assume d: "d < 10" and eq: "digit_char d = nl"
  from eq have "(of_char (digit_char d) :: nat) = of_char nl" by simp
  with d show False
    by (simp add: digit_char_def nl_def)
qed

lemma str_nat_no_nl: "nl \<notin> set (str_nat n)"
proof (induction n rule: str_nat.induct)
  case (1 n)
  show ?case
  proof (cases "n < 10")
    case True
    then show ?thesis
      by (subst str_nat.simps) (simp add: digit_char_not_nl [symmetric])
  next
    case False
    have "n mod 10 < 10" by simp
    with False 1 show ?thesis
      by (subst str_nat.simps) (simp add: digit_char_not_nl [symmetric])
  qed
qed

lemma margin_step_shrinks: "\<exists>y. margin_step i (Some x) = Some y \<and> prefix y x"
  by (cases "first_diff x i") (auto simp: margin_step_def take_is_prefix)

lemma fold_margin_shrinks: "\<exists>y. fold margin_step is (Some x) = Some y \<and> prefix y x"
proof (induction "is" arbitrary: x)
  case Nil
  then show ?case by simp
next
  case (Cons i "is")
  obtain y where y: "margin_step i (Some x) = Some y" "prefix y x"
    using margin_step_shrinks by blast
  from Cons.IH [of y] obtain z where "fold margin_step is (Some y) = Some z" "prefix z y"
    by blast
  with y show ?case
    by (auto intro: prefix_order.trans)
qed


lemma dedent_first_line:
  assumes nonl: "nl \<notin> set l1" and nb: "\<not> list_all is_blank l1"
  shows "\<exists>k rest'. k \<le> length (takeWhile is_blank l1)
           \<and> dedent (l1 @ nl # rest) = drop k l1 @ nl # rest'"
proof -
  let ?R = "map whitespace_only_line (split_nl rest)"
  let ?ls = "l1 # split_nl rest"
  have Rne: "?R \<noteq> []" by simp
  have split0: "split_nl (l1 @ nl # rest) = ?ls"
    using nonl by (simp add: split_nl_append_nl split_nl_no_nl)
  have w1: "whitespace_only_line l1 = l1"
    using nb by (rule whitespace_only_line_keep)
  have s1: "whitespace_only_sub (l1 @ nl # rest) = join_str [nl] (l1 # ?R)"
    unfolding whitespace_only_sub_def split0 by (simp add: w1)
  have nonl_all: "\<forall>l \<in> set (l1 # ?R). nl \<notin> set l"
    using nonl by (auto simp: whitespace_only_line_no_nl split_nl_lines_no_nl)
  have split1: "split_nl (join_str [nl] (l1 # ?R)) = l1 # ?R"
    using nonl_all by (intro split_join_nl) simp_all
  have dw: "dropWhile is_blank l1 \<noteq> []"
    using nb dropWhile_blank_Nil [of l1] by blast
  obtain "is" where indents:
      "leading_whitespace_findall (join_str [nl] (l1 # ?R)) = takeWhile is_blank l1 # is"
    unfolding leading_whitespace_findall_def split1 using dw by simp
  obtain m where m: "fold margin_step is (Some (takeWhile is_blank l1)) = Some m"
      "prefix m (takeWhile is_blank l1)"
    using fold_margin_shrinks by blast
  have margin: "fold margin_step (leading_whitespace_findall (join_str [nl] (l1 # ?R))) None = Some m"
    unfolding indents using m(1) by (simp add: margin_step_def)
  have ded: "dedent (l1 @ nl # rest) =
      (if m \<noteq> [] then margin_sub m (join_str [nl] (l1 # ?R)) else join_str [nl] (l1 # ?R))"
    unfolding dedent_def s1 Let_def margin by simp
  have pm: "prefix m l1"
    using m(2) by (metis prefix_order.trans takeWhile_dropWhile_id prefixI)
  show ?thesis
  proof (cases "m = []")
    case True
    then have "dedent (l1 @ nl # rest) = drop 0 l1 @ nl # join_str [nl] ?R"
      unfolding ded using Rne by (simp add: join_str_Cons)
    then show ?thesis by blast
  next
    case False
    have "margin_sub m (join_str [nl] (l1 # ?R)) =
        join_str [nl] (cut_margin m l1 # map (cut_margin m) ?R)"
      unfolding margin_sub_def split1 by simp
    also have "\<dots> = drop (length m) l1 @ nl # join_str [nl] (map (cut_margin m) ?R)"
      using pm by (simp add: join_str_Cons cut_margin_def)
    finally have "dedent (l1 @ nl # rest) =
        drop (length m) l1 @ nl # join_str [nl] (map (cut_margin m) ?R)"
      unfolding ded using False by simp
    moreover have "length m \<le> length (takeWhile is_blank l1)"
      using m(2) by (rule prefix_length_le)
    ultimately show ?thesis by blast
  qed
qed

lemma alert_fstring_join:
  "alert_fstring alert_id level title text = join_str [nl] (alert_fstring_lines alert_id level title text)"
  by (simp add: alert_fstring_def alert_fstring_lines_def)

lemma replace_nl_no_nl: "nl \<notin> set s \<Longrightarrow> replace_nl r s = s"
  by (induction s) auto

lemma is_blank_simps:
  "is_blank c = (c = CHR '' '' \<or> c = CHR 0x09)"
  by (simp add: is_blank_def sp_def tab_def)

lemma nl_simps: "(nl \<in> set s) = (CHR 0x0A \<in> set s)"
  by (simp add: nl_def)

lemma alert_lines_dedent:
  assumes "nl \<notin> set (format_id alert_id)" "nl \<notin> set level" "nl \<notin> set (str_title level)"
    "nl \<notin> set title" "nl \<notin> set text"
  shows "dedent (join_str [nl] (alert_fstring_lines alert_id level title text)) =
           join_str [nl] (banner_lines alert_id level title text)"
proof -
  let ?ls = "alert_fstring_lines alert_id level title text"
  have 1: "?ls \<noteq> []"
    by (simp add: alert_fstring_lines_def)
  have 2: "\<forall>l \<in> set ?ls. nl \<notin> set l"
    using assms by (simp add: alert_fstring_lines_def nl_simps)
  have 3: "\<forall>l \<in> set ?ls. list_all is_blank l \<or> prefix ''        '' l"
    by (simp add: alert_fstring_lines_def)
  have 4: "\<exists>l \<in> set ?ls. \<not> list_all is_blank l \<and> takeWhile is_blank l = ''        ''"
    by (simp add: alert_fstring_lines_def is_blank_simps)
  have 5: "map (\<lambda>l. if list_all is_blank l then [] else drop (length ''        '') l) ?ls
      = banner_lines alert_id level title text"
    by (simp add: alert_fstring_lines_def banner_lines_def is_blank_simps)
  show ?thesis
    unfolding dedent_uniform [OF 1 2 3 4] 5 ..
qed

lemma str_title_levels: "str_title ''info'' = ''Info''" "str_title ''warning'' = ''Warning''"
  by code_simp+

lemma sublist_inside: "sublist x b \<Longrightarrow> sublist x (a @ b @ c)"
proof -
  assume "sublist x b"
  then obtain p s where "b = p @ x @ s" by (auto simp: sublist_def)
  then have "a @ b @ c = (a @ p) @ x @ (s @ c)" by simp
  then show ?thesis unfolding sublist_def by blast
qed

lemma sublist_join_str: "l \<in> set ls \<Longrightarrow> sublist x l \<Longrightarrow> sublist x (join_str sep ls)"
proof (induction sep ls rule: join_str.induct)
  case (1 sep)
  then show ?case by simp
next
  case (2 sep y)
  then show ?case by simp
next
  case (3 sep y z zs)
  show ?case
  proof (cases "l = y")
    case True
    with 3 show ?thesis using sublist_inside [of x y "[]" "sep @ join_str sep (z # zs)"] by simp
  next
    case False
    with 3 have "sublist x (join_str sep (z # zs))" by simp
    then have "sublist x ((y @ sep) @ join_str sep (z # zs) @ [])"
      by (rule sublist_inside)
    then show ?thesis by simp
  qed
qed

lemma alert_html_single_line:
  assumes "nl \<notin> set (format_id alert_id)" "level = ''info'' \<or> level = ''warning''"
    "nl \<notin> set title" "nl \<notin> set text"
  shows "alert_html alert_id level title text =
           join_str [nl] (banner_lines alert_id level title text)"
proof -
  from assms(2) have lv: "nl \<notin> set level" "nl \<notin> set (str_title level)"
    by (auto simp: str_title_levels nl_def)
  have "alert_html alert_id level title text =
      dedent (join_str [nl] (alert_fstring_lines alert_id level title text))"
    using assms(4) by (simp add: alert_html_def Let_def replace_nl_no_nl alert_fstring_join)
  also have "\<dots> = join_str [nl] (banner_lines alert_id level title text)"
    using assms(1) lv assms(3,4) by (rule alert_lines_dedent)
  finally show ?thesis .
qed

lemma assign_id_no_nl:
  "\<forall>s. ID = Some s \<longrightarrow> nl \<notin> set s \<Longrightarrow> nl \<notin> set (format_id (fst (assign_id reg ID)))"
  by (cases ID) (simp_all add: assign_id_def str_nat_no_nl)


lemma banner_lines_mem:
  "hidden_input alert_id \<in> set (banner_lines alert_id level title text)"
  "''        <h3> '' @ str_title level @ '' - '' @ title @ ''</h3>''
     \<in> set (banner_lines alert_id level title text)"
  "\<not> list_all is_blank text \<Longrightarrow> ''        '' @ text \<in> set (banner_lines alert_id level title text)"
  unfolding banner_lines_def hidden_input_def
  by (simp_all only: list.set insert_iff simp_thms if_False)

lemma alert_fstring_first_line:
  "\<exists>rest. alert_fstring alert_id level title text = (''        '' @ hidden_input alert_id) @ nl # rest"
  by (simp add: alert_fstring_def hidden_input_def)

lemma hidden_input_no_nl: "nl \<notin> set (format_id alert_id) \<Longrightarrow> nl \<notin> set (hidden_input alert_id)"
  by (simp add: hidden_input_def nl_def)

lemma hidden_input_first_char: "\<exists>rest. hidden_input alert_id = CHR ''<'' # rest"
  by (simp add: hidden_input_def)

lemma alert_html_hidden_input:
  assumes "nl \<notin> set (format_id alert_id)"
  shows "sublist (hidden_input alert_id) (alert_html alert_id level title text)"
proof -
  let ?l1 = "''        '' @ hidden_input alert_id"
  obtain h where h: "hidden_input alert_id = CHR ''<'' # h"
    using hidden_input_first_char by blast
  obtain rest where f: "alert_fstring alert_id level title
      (replace_nl (nl # replicate (4 * 4) sp) text) = ?l1 @ nl # rest"
    using alert_fstring_first_line by blast
  have nonl: "nl \<notin> set ?l1"
    using hidden_input_no_nl [OF assms] by (simp add: nl_def)
  have nb: "\<not> list_all is_blank ?l1"
    by (simp add: h is_blank_simps)
  have tw: "takeWhile is_blank ?l1 = ''        ''"
    by (simp add: h is_blank_simps)
  from dedent_first_line [OF nonl nb, of rest] obtain k rest' where
    k: "k \<le> length (takeWhile is_blank ?l1)" "dedent (?l1 @ nl # rest) = drop k ?l1 @ nl # rest'"
    by blast
  from k(1) have "k \<le> length ''        ''"
    unfolding tw .
  then have "drop k ?l1 = drop k ''        '' @ hidden_input alert_id"
    by (simp only: drop_append) simp
  with k(2) have "dedent (?l1 @ nl # rest) = drop k ''        '' @ hidden_input alert_id @ nl # rest'"
    by simp
  then have "sublist (hidden_input alert_id) (dedent (?l1 @ nl # rest))"
    by (simp only: sublist_appendI)
  then show ?thesis
    unfolding alert_html_def Let_def f .
qed

lemma alert_auto_id:
  assumes "level = ''info'' \<or> level = ''warning''" "\<not> has_disable_been_called reg"
  shows "alert reg title text level None =
           (Inr (alert_html (IntId (numid reg)) level title text), reg\<lparr>numid := numid reg + 1\<rparr>)"
  using assms by (auto simp: alert_def assign_id_def)

lemma run_alerts_auto:
  assumes "\<forall>(title, text, level, ID) \<in> set calls. ID = None \<and> (level = ''info'' \<or> level = ''warning'')"
    and "\<not> has_disable_been_called reg"
  shows "run_alerts reg calls =
           (map (\<lambda>(k, title, text, level, ID). Inr (alert_html (IntId k) level title text))
              (enumerate (numid reg) calls),
            reg\<lparr>numid := numid reg + length calls\<rparr>)"
  using assms
proof (induction calls arbitrary: reg)
  case Nil
  then show ?case by simp
next
  case (Cons c calls)
  obtain ttl body lvl ident where c: "c = (ttl, body, lvl, ident)"
    by (cases c) auto
  from Cons.prems(1) c have lv: "ident = None" "lvl = ''info'' \<or> lvl = ''warning''"
    by auto
  let ?reg' = "reg\<lparr>numid := numid reg + 1\<rparr>"
  have a: "alert reg ttl body lvl ident =
      (Inr (alert_html (IntId (numid reg)) lvl ttl body), ?reg')"
    unfolding lv(1) using lv(2) Cons.prems(2) by (rule alert_auto_id)
  have "\<not> has_disable_been_called ?reg'"
    using Cons.prems(2) by simp
  with Cons.IH [of ?reg'] Cons.prems(1) have ih: "run_alerts ?reg' calls =
      (map (\<lambda>(k, title, text, level, ID). Inr (alert_html (IntId k) level title text))
         (enumerate (numid ?reg') calls),
       ?reg'\<lparr>numid := numid ?reg' + length calls\<rparr>)"
    by simp
  show ?case
    unfolding c using a ih by simp
qed

lemma sp_simps: "sp = CHR '' ''"
  by (simp add: sp_def)

lemma entry_lines_not_Nil [simp]: "entry_lines es \<noteq> []"
  by (induction es rule: entry_lines.induct) auto

lemma entry_lines_join:
  "''            '' @ join_str ('','' @ [nl] @ replicate (4 * 3) sp) es = join_str [nl] (entry_lines es)"
proof (induction es rule: entry_lines.induct)
  case 1
  then show ?case by simp
next
  case (2 e)
  then show ?case by simp
next
  case (3 e e' es)
  have r: "replicate 12 sp = ''            ''"
    by code_simp
  have "''            '' @ join_str ('','' @ [nl] @ replicate (4 * 3) sp) (e # e' # es) =
      (''            '' @ e @ '','') @ [nl] @
        (''            '' @ join_str ('','' @ [nl] @ replicate (4 * 3) sp) (e' # es))"
    by (simp add: r)
  also have "\<dots> = (''            '' @ e @ '','') @ [nl] @ join_str [nl] (entry_lines (e' # es))"
    unfolding 3 ..
  also have "\<dots> = join_str [nl] (entry_lines (e # e' # es))"
    by (simp add: join_str_Cons)
  finally show ?case .
qed

lemma script_fstring_join:
  \<open>script_fstring marker (join_str ('','' @ [nl] @ replicate (4 * 3) sp) es) =
     join_str [nl] (''        setAttrs({'' # (''            "'' @ marker @ ''": 1,'')
        # entry_lines es @ [''        }); ''])\<close>
proof -
  have "join_str [nl] (entry_lines es @ [''        }); '']) =
      join_str [nl] (entry_lines es) @ [nl] @ ''        }); ''"
    by (simp add: join_str_append)
  then show ?thesis
    by (simp add: script_fstring_def join_str_Cons entry_lines_join [symmetric, simplified] del: join_str.simps)
qed

lemma entry_lines_shape:
  "l \<in> set (entry_lines es) \<Longrightarrow>
     l = ''            '' \<or> (\<exists>e \<in> set es. l = ''            '' @ e \<or> l = ''            '' @ e @ '','')"
proof (induction es rule: entry_lines.induct)
  case 1
  then have "l = ''            ''"
    by (simp only: entry_lines.simps list.set singleton_iff)
  then show ?case by blast
next
  case (2 e)
  then have "l = ''            '' @ e"
    by (simp only: entry_lines.simps list.set singleton_iff)
  then show ?case by (simp only: list.set) blast
next
  case (3 e e' es)
  from 3(2) have "l = ''            '' @ e @ '','' \<or> l \<in> set (entry_lines (e' # es))"
    by (simp only: entry_lines.simps(3) list.set insert_iff)
  then show ?case
  proof
    assume "l = ''            '' @ e @ '',''"
    then show ?thesis by (simp only: list.set) blast
  next
    assume "l \<in> set (entry_lines (e' # es))"
    from 3(1) [OF this] show ?thesis by (simp only: list.set) blast
  qed
qed

lemma entry_lines_props:
  assumes "\<forall>e \<in> set es. nl \<notin> set e" "l \<in> set (entry_lines es)"
  shows "nl \<notin> set l" "prefix ''        '' l"
proof -
  have a: "nl \<notin> set ''            ''" "nl \<notin> set '',''"
    by (simp_all add: nl_def)
  have p: "prefix ''        '' (''            '' @ r)" for r
    by simp
  from entry_lines_shape [OF assms(2)] consider "l = ''            ''"
    | e where "e \<in> set es" "l = ''            '' @ e"
    | e where "e \<in> set es" "l = ''            '' @ e @ '',''"
    by blast
  then show "nl \<notin> set l"
  proof cases
    case 1
    with a(1) show ?thesis by blast
  next
    case 2
    with assms(1) a show ?thesis by (simp only: set_append) blast
  next
    case 3
    with assms(1) a show ?thesis by (simp only: set_append) blast
  qed
  from entry_lines_shape [OF assms(2)] consider "l = ''            '' @ []"
    | e where "l = ''            '' @ e"
    | e where "l = ''            '' @ e @ '',''"
    by (simp only: append_Nil2) blast
  then show "prefix ''        '' l"
    using p by cases (simp_all only:)
qed

lemma is_blank_space: "is_blank (CHR '' '')"
  by (simp add: is_blank_def sp_def)

lemma cut8_blank: "cut8 ''            '' = []"
  by (simp add: cut8_def is_blank_space)

lemma cut8_indented:
  "\<not> list_all is_blank e \<Longrightarrow> cut8 (''            '' @ e @ r) = ''    '' @ e @ r"
  by (simp add: cut8_def)

lemma cut8_entry_lines:
  assumes "\<forall>e \<in> set es. \<not> list_all is_blank e"
  shows "join_str [nl] (map cut8 (entry_lines es)) =
           join_str ('','' @ [nl]) (map (\<lambda>e. ''    '' @ e) es)"
  using assms
proof (induction es rule: entry_lines.induct)
  case 1
  show ?case
    by (simp only: entry_lines.simps list.map cut8_blank join_str.simps)
next
  case (2 e)
  then have "\<not> list_all is_blank e" by simp
  from cut8_indented [OF this, of "[]"] show ?case
    by (simp only: entry_lines.simps list.map join_str.simps append_Nil2)
next
  case (3 e e' es)
  then have "\<not> list_all is_blank e" by simp
  note c = cut8_indented [OF this, of "'',''"]
  have ne: "map cut8 (entry_lines (e' # es)) \<noteq> []"
    by simp
  have ih: "join_str [nl] (map cut8 (entry_lines (e' # es))) =
      join_str ('','' @ [nl]) (map (\<lambda>e. ''    '' @ e) (e' # es))"
    using 3 by simp
  have "join_str [nl] (map cut8 (entry_lines (e # e' # es))) =
      join_str [nl] ((''    '' @ e @ '','') # map cut8 (entry_lines (e' # es)))"
    by (simp only: entry_lines.simps(3) list.map c)
  also have "\<dots> = (''    '' @ e @ '','') @ [nl] @ join_str [nl] (map cut8 (entry_lines (e' # es)))"
    using ne by (rule join_str_Cons)
  also have "\<dots> = (''    '' @ e @ '','') @ [nl] @
      join_str ('','' @ [nl]) (map (\<lambda>e. ''    '' @ e) (e' # es))"
    unfolding ih ..
  also have "\<dots> = join_str ('','' @ [nl]) (map (\<lambda>e. ''    '' @ e) (e # e' # es))"
    by simp
  finally show ?case .
qed

lemma join_str_single: "join_str sep [x] = x"
  by simp

lemma cut8_fun: "(\<lambda>l. if list_all is_blank l then [] else drop (length ''        '') l) = cut8"
  by (rule ext) (simp only: cut8_def)

lemma script_entry_props:
  "nl \<notin> set (format_id i) \<Longrightarrow> nl \<notin> set (script_entry i)"
  "\<not> list_all is_blank (script_entry i)"
  by (simp_all add: script_entry_def nl_def is_blank_def sp_def tab_def)

lemma cut8_script_lines:
  \<open>cut8 ''        setAttrs({'' = ''setAttrs({''\<close>
  \<open>cut8 (''            "'' @ marker @ ''": 1,'') = ''    "'' @ marker @ ''": 1,''\<close>
  \<open>cut8 ''        }); '' = ''}); ''\<close>
  by (simp_all add: cut8_def is_blank_def sp_def tab_def)

lemma script_lines_dedent:
  assumes m: "nl \<notin> set marker"
    and e1: "\<forall>e \<in> set es. nl \<notin> set e"
    and e2: "\<forall>e \<in> set es. \<not> list_all is_blank e"
  shows \<open>dedent (script_fstring marker (join_str ('','' @ [nl] @ replicate (4 * 3) sp) es)) =
           ''setAttrs({'' @ [nl] @ ''    "'' @ marker @ ''": 1,'' @ [nl]
           @ join_str ('','' @ [nl]) (map (\<lambda>e. ''    '' @ e) es) @ [nl] @ ''}); ''\<close>
proof -
  let ?l1 = "''        setAttrs({''"
  let ?l2 = \<open>''            "'' @ marker @ ''": 1,''\<close>
  let ?l4 = "''        }); ''"
  let ?ls = "?l1 # ?l2 # entry_lines es @ [?l4]"
  have 1: "?ls \<noteq> []" by simp
  have 2: "\<forall>l \<in> set ?ls. nl \<notin> set l"
  proof
    fix l assume "l \<in> set ?ls"
    then consider "l = ?l1" | "l = ?l2" | "l \<in> set (entry_lines es)" | "l = ?l4"
      by auto
    then show "nl \<notin> set l"
    proof cases
      case 1 then show ?thesis by (simp add: nl_def)
    next
      case 2 with m show ?thesis by (simp add: nl_def)
    next
      case 3 with e1 show ?thesis by (rule entry_lines_props(1))
    next
      case 4 then show ?thesis by (simp add: nl_def)
    qed
  qed
  have 3: "\<forall>l \<in> set ?ls. list_all is_blank l \<or> prefix ''        '' l"
  proof
    fix l assume "l \<in> set ?ls"
    then consider "l = ?l1" | "l = ?l2" | "l \<in> set (entry_lines es)" | "l = ?l4"
      by auto
    then have "prefix ''        '' l"
    proof cases
      case 1 then show ?thesis by simp
    next
      case 2 then show ?thesis by simp
    next
      case 3 with e1 show ?thesis by (rule entry_lines_props(2))
    next
      case 4 then show ?thesis by simp
    qed
    then show "list_all is_blank l \<or> prefix ''        '' l" ..
  qed
  have "\<not> list_all is_blank ?l1 \<and> takeWhile is_blank ?l1 = ''        ''"
    by (simp add: is_blank_def sp_def tab_def)
  then have 4: "\<exists>l \<in> set ?ls. \<not> list_all is_blank l \<and> takeWhile is_blank l = ''        ''"
    by (meson list.set_intros(1))
  have "dedent (join_str [nl] ?ls) = join_str [nl] (map cut8 ?ls)"
    unfolding dedent_uniform [OF 1 2 3 4] cut8_fun ..
  also have "map cut8 ?ls = cut8 ?l1 # cut8 ?l2 # map cut8 (entry_lines es) @ [cut8 ?l4]"
    by simp
  also have "join_str [nl] \<dots> = cut8 ?l1 @ [nl] @ cut8 ?l2 @ [nl]
      @ join_str [nl] (map cut8 (entry_lines es)) @ [nl] @ cut8 ?l4"
    by (simp add: join_str_Cons join_str_append)
  finally show ?thesis
    unfolding script_fstring_join cut8_script_lines cut8_entry_lines [OF e2]
    by (simp only: append_assoc)
qed

lemma alert_success:
  "\<not> isl (fst (alert reg title text level ID)) \<Longrightarrow>
     snd (alert reg title text level ID) = snd (assign_id reg ID)
     \<and> \<not> has_disable_been_called reg"
  by (auto simp: alert_def split: if_splits prod.splits)

lemma assign_id_state:
  "snd (assign_id reg ID) =
     reg\<lparr>numid := numid reg + (if ID = None then 1 else 0),
         strid := strid reg @ (case ID of None \<Rightarrow> [] | Some s \<Rightarrow> [s])\<rparr>"
  by (cases ID) (simp_all add: assign_id_def)

lemma auto_count_Cons:
  "auto_count ((ttl, body, lvl, ident) # calls) = (if ident = None then 1 else 0) + auto_count calls"
  by (simp add: auto_count_def)

lemma explicit_ids_Cons:
  "explicit_ids ((ttl, body, lvl, ident) # calls) =
     (case ident of None \<Rightarrow> [] | Some s \<Rightarrow> [s]) @ explicit_ids calls"
  by (cases ident) (simp_all add: explicit_ids_def List.map_filter_simps)

lemma count_ids_length: "auto_count calls + length (explicit_ids calls) = length calls"
proof (induction calls)
  case Nil
  then show ?case by (simp add: auto_count_def explicit_ids_def List.map_filter_simps)
next
  case (Cons c calls)
  obtain ttl body lvl ident where c: "c = (ttl, body, lvl, ident)"
    by (cases c) auto
  from Cons show ?case
    unfolding c auto_count_Cons explicit_ids_Cons by (cases ident) simp_all
qed

lemma run_alerts_success:
  assumes "\<forall>r \<in> set (fst (run_alerts reg calls)). \<not> isl r"
  shows "snd (run_alerts reg calls) =
           reg\<lparr>numid := numid reg + auto_count calls, strid := strid reg @ explicit_ids calls\<rparr>"
  using assms
proof (induction calls arbitrary: reg)
  case Nil
  then show ?case by (simp add: auto_count_def explicit_ids_def List.map_filter_simps)
next
  case (Cons c calls)
  obtain ttl body lvl ident where c: "c = (ttl, body, lvl, ident)"
    by (cases c) auto
  let ?reg' = "snd (alert reg ttl body lvl ident)"
  have run: "run_alerts reg (c # calls) =
      (fst (alert reg ttl body lvl ident) # fst (run_alerts ?reg' calls), snd (run_alerts ?reg' calls))"
    unfolding c by (simp add: split_beta)
  from Cons.prems have ok1: "\<not> isl (fst (alert reg ttl body lvl ident))"
    and ok2: "\<forall>r \<in> set (fst (run_alerts ?reg' calls)). \<not> isl r"
    unfolding run by simp_all
  have st: "?reg' = reg\<lparr>numid := numid reg + (if ident = None then 1 else 0),
         strid := strid reg @ (case ident of None \<Rightarrow> [] | Some s \<Rightarrow> [s])\<rparr>"
    using alert_success [OF ok1] by (simp only: assign_id_state)
  have "snd (run_alerts reg (c # calls)) = snd (run_alerts ?reg' calls)"
    unfolding run by simp
  also have "\<dots> = ?reg'\<lparr>numid := numid ?reg' + auto_count calls,
      strid := strid ?reg' @ explicit_ids calls\<rparr>"
    using ok2 by (rule Cons.IH)
  also have "\<dots> = reg\<lparr>numid := numid reg + auto_count (c # calls),
      strid := strid reg @ explicit_ids (c # calls)\<rparr>"
    unfolding c auto_count_Cons explicit_ids_Cons st by simp
  finally show ?case .
qed

lemma count_list_upt: "count_list [0..<c] n = (if n < c then 1 else 0)"
  by (induction c) auto

lemma count_list_ids:
  "count_list (map IntId xs) (IntId n) = count_list xs n"
  "count_list (map StrId ys) (IntId n) = 0"
  "count_list (map IntId xs) (StrId s) = 0"
  "count_list (map StrId ys) (StrId s) = count_list ys s"
  by (induction xs, simp_all) (induction ys, simp_all)+

lemma disable_old_alerts_output:
  assumes "nl \<notin> set marker" "\<forall>i \<in> set (listed_ids reg). nl \<notin> set (format_id i)"
  shows \<open>fst (disable_old_alerts reg marker) =
           ''setAttrs({'' @ [nl] @ ''    "'' @ marker @ ''": 1,'' @ [nl]
           @ join_str ('','' @ [nl]) (map (\<lambda>i. ''    '' @ script_entry i) (listed_ids reg))
           @ [nl] @ ''}); ''\<close>
proof -
  let ?es = "map script_entry (listed_ids reg)"
  have l: "listed_ids (reg\<lparr>has_disable_been_called := True\<rparr>) = listed_ids reg"
    by (simp add: listed_ids_def)
  have d: "fst (disable_old_alerts reg marker) =
      dedent (script_fstring marker (join_str ('','' @ [nl] @ replicate (4 * 3) sp) ?es))"
    by (simp add: disable_old_alerts_def Let_def l)
  have e1: "\<forall>e \<in> set ?es. nl \<notin> set e"
    using assms(2) by (auto simp: script_entry_props(1))
  have e2: "\<forall>e \<in> set ?es. \<not> list_all is_blank e"
    by (auto simp: script_entry_props(2))
  have m: "map (\<lambda>e. ''    '' @ e) ?es = map (\<lambda>i. ''    '' @ script_entry i) (listed_ids reg)"
    by simp
  show ?thesis
    unfolding d script_lines_dedent [OF assms(1) e1 e2] m ..
qed

lemma hex_digit_Some:
  assumes "hex_digit c = Some x"
  shows "x < 16" "\<not> is_int_space c" "c \<noteq> CHR ''-''" "c \<noteq> CHR ''+''" "c \<noteq> CHR ''#''"
proof -
  let ?n = "of_char c :: nat"
  from assms have r: "(48 \<le> ?n \<and> ?n \<le> 57) \<or> (97 \<le> ?n \<and> ?n \<le> 102) \<or> (65 \<le> ?n \<and> ?n \<le> 70)"
    by (auto simp: hex_digit_def Let_def split: if_splits)
  from assms show "x < 16"
    by (auto simp: hex_digit_def Let_def split: if_splits)
  from r show "\<not> is_int_space c"
    by (auto simp: is_int_space_def)
  have "(of_char (CHR ''-'') :: nat) = 45" "(of_char (CHR ''+'') :: nat) = 43"
    "(of_char (CHR ''#'') :: nat) = 35"
    by simp_all
  with r show "c \<noteq> CHR ''-''" "c \<noteq> CHR ''+''" "c \<noteq> CHR ''#''"
    by auto
qed

lemma int16_two_digits:
  assumes a: "hex_digit a = Some x" and b: "hex_digit b = Some y"
  shows "int16 [a, b] = Inr (int (16 * x + y))"
proof -
  note fa = hex_digit_Some [OF a] and fb = hex_digit_Some [OF b]
  have t: "rev (dropWhile is_int_space (rev (dropWhile is_int_space [a, b]))) = [a, b]"
    using fa(2) fb(2) by simp
  have h: "hex_digits 0 [a, b] = Some (16 * x + y)"
    using a b by simp
  show ?thesis
    unfolding int16_def t Let_def using fa(3,4) h by simp
qed

lemma color_channels_wf:
  assumes "wf_hex h"
  shows "\<exists>R G B. color_channels h = Inr (R, G, B)
           \<and> 0 \<le> R \<and> R \<le> 255 \<and> 0 \<le> G \<and> G \<le> 255 \<and> 0 \<le> B \<and> B \<le> 255"
proof -
  from assms obtain hs where h: "h = CHR ''#'' # hs" and len: "length hs = 6"
    and dig: "list_all (\<lambda>c. hex_digit c \<noteq> None) hs"
    by (cases h) (auto simp: wf_hex_def)
  from len obtain a b c d e f where hs: "hs = [a, b, c, d, e, f]"
    by (auto simp: eval_nat_numeral length_Suc_conv)
  from dig hs obtain x1 x2 x3 x4 x5 x6 where x:
    "hex_digit a = Some x1" "hex_digit b = Some x2" "hex_digit c = Some x3"
    "hex_digit d = Some x4" "hex_digit e = Some x5" "hex_digit f = Some x6"
    by auto
  have strip: "dropWhile (\<lambda>c. c = CHR ''#'') h = [a, b, c, d, e, f]"
    unfolding h hs using hex_digit_Some(5) [OF x(1)] by simp
  have sl: "hex_slice [a, b, c, d, e, f] 0 = [a, b]" "hex_slice [a, b, c, d, e, f] 1 = [c, d]"
    "hex_slice [a, b, c, d, e, f] 2 = [e, f]"
    by (simp_all add: hex_slice_def)
  have ch: "color_channels h =
      Inr (int (16 * x1 + x2), int (16 * x3 + x4), int (16 * x5 + x6))"
    unfolding color_channels_def strip Let_def sl
      int16_two_digits [OF x(1) x(2)] int16_two_digits [OF x(3) x(4)]
      int16_two_digits [OF x(5) x(6)]
    by simp
  have "x1 < 16" "x2 < 16" "x3 < 16" "x4 < 16" "x5 < 16" "x6 < 16"
    using x by (auto dest: hex_digit_Some(1))
  then have "int (16 * x1 + x2) \<le> 255" "int (16 * x3 + x4) \<le> 255" "int (16 * x5 + x6) \<le> 255"
    by simp_all
  with ch show ?thesis
    by simp
qed

lemma color_rules_channels:
  assumes "color_channels (hex d) = Inr (R, G, B)"
  shows "color_rules d = Inr
     [join_str [nl] (lines_header d
        @ (if 1 / 2 < luma R G B then [''    --header-text-color: #000;''] else []) @ [''}'']),
      join_str [nl] (lines_rolls d
        @ (if luma R G B < 1 / 2 then [''    --roll-text-color: #FFF;''] else []) @ [''}'']),
      join_str [nl] (lines_buttons d
        @ (if 1 / 2 < luma R G B then [''    --button-text-color: #000;''] else []) @ [''}''])]"
  unfolding color_rules_def assms by (simp add: Let_def del: join_str.simps)

lemma color_rules_wf:
  assumes "wf_hex (hex d)"
  shows "\<exists>h r b. length h \<le> 1 \<and> length r \<le> 1 \<and> length b \<le> 1
     \<and> color_rules d = Inr
          [join_str [nl] (lines_header d @ h @ [''}'']),
           join_str [nl] (lines_rolls d @ r @ [''}'']),
           join_str [nl] (lines_buttons d @ b @ [''}''])]"
proof -
  from color_channels_wf [OF assms] obtain R G B where "color_channels (hex d) = Inr (R, G, B)"
    by blast
  note c = color_rules_channels [OF this]
  let ?h = "if 1 / 2 < luma R G B then [''    --header-text-color: #000;''] else []"
  let ?r = "if luma R G B < 1 / 2 then [''    --roll-text-color: #FFF;''] else []"
  let ?b = "if 1 / 2 < luma R G B then [''    --button-text-color: #000;''] else []"
  have "length ?h \<le> 1" "length ?r \<le> 1" "length ?b \<le> 1"
    by simp_all
  with c show ?thesis
    by blast
qed

lemma blocks_of_wf:
  assumes "wf_hex (hex d)"
  shows "color_rules d = Inr (blocks_of d)" "length (blocks_of d) = 3"
proof -
  from color_rules_wf [OF assms] obtain x y z where "color_rules d = Inr [x, y, z]"
    by blast
  then show "color_rules d = Inr (blocks_of d)" "length (blocks_of d) = 3"
    by (simp_all add: blocks_of_def)
qed

lemma css_rules_wf:
  "\<forall>d \<in> set defs. wf_hex (hex d) \<Longrightarrow>
     css_rules acc defs = Inr (acc @ concat (map blocks_of defs))"
proof (induction defs arbitrary: acc)
  case Nil
  then show ?case by simp
next
  case (Cons d defs)
  then have "color_rules d = Inr (blocks_of d)"
    by (simp add: blocks_of_wf(1))
  with Cons show ?case
    by simp
qed

lemma nth_concat_3:
  "\<forall>x \<in> set xs. length (f x) = 3 \<Longrightarrow> k < length xs \<Longrightarrow> j < 3 \<Longrightarrow>
     concat (map f xs) ! (3 * k + j) = f (xs ! k) ! j"
proof (induction xs arbitrary: k)
  case Nil
  then show ?case by simp
next
  case (Cons x xs)
  show ?case
  proof (cases k)
    case 0
    with Cons.prems show ?thesis
      by (simp add: nth_append)
  next
    case (Suc k')
    with Cons.prems have "concat (map f xs) ! (3 * k' + j) = f (xs ! k') ! j"
      by (intro Cons.IH) simp_all
    with Suc Cons.prems show ?thesis
      by (simp add: nth_append)
  qed
qed

lemma length_concat_3:
  "\<forall>x \<in> set xs. length (f x) = 3 \<Longrightarrow> length (concat (map f xs)) = 3 * length xs"
  by (induction xs) simp_all



lemma digit_char_inj: "a < 10 \<Longrightarrow> b < 10 \<Longrightarrow> digit_char a = digit_char b \<Longrightarrow> a = b"
proof -
  assume a: "a < 10" and b: "b < 10" and eq: "digit_char a = digit_char b"
  from eq have "(of_char (digit_char a) :: nat) = of_char (digit_char b)" by simp
  with a b show "a = b"
    by (simp add: digit_char_def)
qed

lemma str_nat_small: "n < 10 \<Longrightarrow> str_nat n = [digit_char n]"
  by (subst str_nat.simps) simp

lemma str_nat_big: "\<not> n < 10 \<Longrightarrow> str_nat n = str_nat (n div 10) @ [digit_char (n mod 10)]"
  by (subst str_nat.simps) simp

lemma str_nat_not_Nil: "str_nat n \<noteq> []"
  by (cases "n < 10") (simp_all add: str_nat_small str_nat_big)

lemma str_nat_inj: "str_nat m = str_nat n \<Longrightarrow> m = n"
proof (induction m arbitrary: n rule: str_nat.induct)
  case (1 m)
  show ?case
  proof (cases "m < 10")
    case ms: True
    show ?thesis
    proof (cases "n < 10")
      case True
      with ms "1.prems" have "digit_char m = digit_char n"
        by (simp add: str_nat_small)
      with ms True show ?thesis
        by (rule digit_char_inj)
    next
      case False
      with ms "1.prems" have "[digit_char m] = str_nat (n div 10) @ [digit_char (n mod 10)]"
        by (simp add: str_nat_small str_nat_big)
      then have "str_nat (n div 10) = []"
        by simp
      with str_nat_not_Nil show ?thesis
        by blast
    qed
  next
    case mb: False
    show ?thesis
    proof (cases "n < 10")
      case True
      with mb "1.prems" have "str_nat (m div 10) @ [digit_char (m mod 10)] = [digit_char n]"
        by (simp add: str_nat_small str_nat_big)
      then have "str_nat (m div 10) = []"
        by simp
      with str_nat_not_Nil show ?thesis
        by blast
    next
      case False
      with mb "1.prems" have
        "str_nat (m div 10) @ [digit_char (m mod 10)] = str_nat (n div 10) @ [digit_char (n mod 10)]"
        by (simp add: str_nat_big)
      then have e: "str_nat (m div 10) = str_nat (n div 10)"
        and d: "digit_char (m mod 10) = digit_char (n mod 10)"
        by simp_all
      from "1.IH" [OF mb e] have q: "m div 10 = n div 10" .
      have "m mod 10 < 10" "n mod 10 < 10" by simp_all
      from digit_char_inj [OF this d] have r: "m mod 10 = n mod 10" .
      have "m = 10 * (m div 10) + m mod 10" by simp
      also have "\<dots> = 10 * (n div 10) + n mod 10" by (simp only: q r)
      also have "\<dots> = n" by simp
      finally show ?thesis .
    qed
  qed
qed

lemma distinct_str_nat: "distinct (map str_nat [0..<c])"
  by (simp add: distinct_map inj_on_def str_nat_inj)

lemma count_list_distinct: "distinct xs \<Longrightarrow> count_list xs x = (if x \<in> set xs then 1 else 0)"
  by (induction xs) auto

lemma count_list_str_nat:
  "count_list (map str_nat [0..<c]) s = (if \<exists>k < c. str_nat k = s then 1 else 0)"
  unfolding count_list_distinct [OF distinct_str_nat] by auto

lemma script_entry_inj: "script_entry i = script_entry j \<Longrightarrow> format_id i = format_id j"
  by (simp add: script_entry_def)

lemma count_list_script_entry:
  "count_list (map script_entry ids) (script_entry i) = count_list (map format_id ids) (format_id i)"
  by (induction ids) (auto simp: script_entry_def)

lemma distinct_script_entry:
  "distinct (map format_id ids) \<Longrightarrow> distinct (map script_entry ids)"
proof -
  assume d: "distinct (map format_id ids)"
  have m: \<open>map script_entry ids = map (\<lambda>s. ''"alert-'' @ s @ ''": 1'') (map format_id ids)\<close>
    by (simp add: script_entry_def)
  have \<open>inj (\<lambda>s :: string. ''"alert-'' @ s @ ''": 1'')\<close>
    by (simp add: inj_on_def)
  then have \<open>inj_on (\<lambda>s :: string. ''"alert-'' @ s @ ''": 1'') (set (map format_id ids))\<close>
    by (rule inj_on_subset) simp
  with d show ?thesis
    unfolding m by (simp only: distinct_map simp_thms)
qed

lemma format_listed_ids:
  "map format_id (map IntId [0..<c] @ map StrId es) = map str_nat [0..<c] @ es"
  by (simp add: comp_def)

lemma color_rules_explicit:
  assumes "wf_hex (hex d)"
  shows "\<exists>h r b.
       (h = [] \<or> h = [''    --header-text-color: #000;''])
     \<and> (r = [] \<or> r = [''    --roll-text-color: #FFF;''])
     \<and> (b = [] \<or> b = [''    --button-text-color: #000;''])
     \<and> color_rules d = Inr
          [join_str [nl]
             ([''.sheet-rolltemplate-custom .sheet-crt-container.sheet-crt-color-'' @ color d @ '' {'',
               ''    --header-bg-color: '' @ hex d @ '';''] @ h @ [''}'']),
           join_str [nl]
             ([''.sheet-rolltemplate-custom .sheet-crt-container.sheet-crt-rlcolor-'' @ color d
                 @ '' .inlinerollresult {'',
               ''    --roll-bg-color: '' @ hex d @ '';''] @ r @ [''}'']),
           join_str [nl]
             ([''.sheet-rolltemplate-custom .sheet-crt-container.sheet-crt-btcolor-'' @ color d @ '' a {'',
               ''    --button-bg-color: '' @ hex d @ '';''] @ b @ [''}''])]"
proof -
  from color_channels_wf [OF assms] obtain R G B where "color_channels (hex d) = Inr (R, G, B)"
    by blast
  note c = color_rules_channels [OF this, unfolded lines_header_def lines_rolls_def lines_buttons_def]
  let ?h = "if 1 / 2 < luma R G B then [''    --header-text-color: #000;''] else []"
  let ?r = "if luma R G B < 1 / 2 then [''    --roll-text-color: #FFF;''] else []"
  let ?b = "if 1 / 2 < luma R G B then [''    --button-text-color: #000;''] else []"
  have "?h = [] \<or> ?h = [''    --header-text-color: #000;'']"
    "?r = [] \<or> ?r = [''    --roll-text-color: #FFF;'']"
    "?b = [] \<or> ?b = [''    --button-text-color: #000;'']"
    by simp_all
  with c show ?thesis
    by blast
qed

section \<open>Failure modes of alert\<close>

lemma snd_disable_old_alerts:
  "snd (disable_old_alerts reg marker) = reg\<lparr>has_disable_been_called := True\<rparr>"
  by (simp add: disable_old_alerts_def Let_def)

text \<open>
  C2: whatever the title, the text, the identifier and the registry, \<open>alert\<close> fails with
  the value error exactly when the level is neither \<open>info\<close> nor \<open>warning\<close>; the error is
  raised before the registry is touched.
\<close>

theorem alert_invalid_level:
  "(fst (alert reg title text level ID) = Inl ValueError) = (level \<noteq> ''info'' \<and> level \<noteq> ''warning'')
   \<and> (level \<noteq> ''info'' \<and> level \<noteq> ''warning'' \<longrightarrow> alert reg title text level ID = (Inl ValueError, reg))"
  by (simp add: alert_def split: prod.splits)

theorem alert_invalid_level_witness:
  "''error'' \<noteq> ''info'' \<and> ''error'' \<noteq> ''warning''
   \<and> alert initial_registry ''Title'' ''Text'' ''error'' None = (Inl ValueError, initial_registry)"
  using alert_invalid_level [of initial_registry "''Title''" "''Text''" "''error''" None]
  by simp

text \<open>
  C1, as amended: once the closing-script generator has run, every call to \<open>alert\<close> fails and
  leaves the registry as it was; the error is the state error when the level is one of the two
  recognised values, and the value error otherwise, since the level is checked first.
\<close>

theorem alert_after_disable:
  "has_disable_been_called reg \<Longrightarrow>
     alert reg title text level ID =
       (Inl (if level = ''info'' \<or> level = ''warning'' then RuntimeError else ValueError), reg)"
  by (simp add: alert_def)

theorem alert_after_disable_witness:
  "has_disable_been_called (snd (disable_old_alerts initial_registry ''seen''))
   \<and> alert (snd (disable_old_alerts initial_registry ''seen'')) ''Title'' ''Text'' ''info'' None =
       (Inl RuntimeError, snd (disable_old_alerts initial_registry ''seen''))"
  using alert_after_disable [of "snd (disable_old_alerts initial_registry ''seen'')"
      "''Title''" "''Text''" "''info''" None]
  by (simp add: snd_disable_old_alerts)

text \<open>
  C1 as stated fails: with the guard flag set and an unrecognised level the call fails with
  the value error, not with the state error.
\<close>

theorem alert_after_disable_counterexample:
  "has_disable_been_called (snd (disable_old_alerts initial_registry ''seen''))
   \<and> fst (alert (snd (disable_old_alerts initial_registry ''seen'')) ''Title'' ''Text'' ''error'' None)
       = Inl ValueError
   \<and> fst (alert (snd (disable_old_alerts initial_registry ''seen'')) ''Title'' ''Text'' ''error'' None)
       \<noteq> Inl RuntimeError"
  by (simp add: alert_def snd_disable_old_alerts)

text \<open>
  C9: \<open>alert\<close> fails exactly when the level is not recognised or the guard flag is set, and a
  failing call leaves the counter, the list of string identifiers and the flag as they were.
\<close>

theorem alert_failure_atomic:
  "isl (fst (alert reg title text level ID)) =
     ((level \<noteq> ''info'' \<and> level \<noteq> ''warning'') \<or> has_disable_been_called reg)
   \<and> (isl (fst (alert reg title text level ID)) \<longrightarrow>
        snd (alert reg title text level ID) = reg
        \<and> numid (snd (alert reg title text level ID)) = numid reg
        \<and> strid (snd (alert reg title text level ID)) = strid reg
        \<and> has_disable_been_called (snd (alert reg title text level ID)) = has_disable_been_called reg)"
  by (auto simp: alert_def split: prod.splits)

theorem alert_failure_atomic_witness:
  "isl (fst (alert \<lparr>numid = 2, strid = [''a''], has_disable_been_called = True\<rparr>
          ''Title'' ''Text'' ''info'' (Some ''b'')))
   \<and> snd (alert \<lparr>numid = 2, strid = [''a''], has_disable_been_called = True\<rparr>
          ''Title'' ''Text'' ''info'' (Some ''b''))
       = \<lparr>numid = 2, strid = [''a''], has_disable_been_called = True\<rparr>"
  using alert_failure_atomic [of "\<lparr>numid = 2, strid = [''a''], has_disable_been_called = True\<rparr>"
      "''Title''" "''Text''" "''info''" "Some ''b''"]
  by simp

section \<open>The closing script leaves the identifiers alone\<close>

text \<open>
  C10: \<open>disable_old_alerts\<close> changes nothing in the registry but the guard flag, which it sets;
  the counter and the list of string identifiers are as before, so a second call with the same
  marker returns the same script fragment as the first.
\<close>

theorem disable_old_alerts_idempotent:
  "snd (disable_old_alerts reg marker) = reg\<lparr>has_disable_been_called := True\<rparr>
   \<and> numid (snd (disable_old_alerts reg marker)) = numid reg
   \<and> strid (snd (disable_old_alerts reg marker)) = strid reg
   \<and> has_disable_been_called (snd (disable_old_alerts reg marker))
   \<and> fst (disable_old_alerts (snd (disable_old_alerts reg marker)) marker)
       = fst (disable_old_alerts reg marker)"
  by (simp add: disable_old_alerts_def listed_ids_def Let_def)

section \<open>What a banner contains\<close>

text \<open>
  C8, as amended: for a title and a text without a newline, the text having a character other
  than a space or a tab, a level among \<open>info\<close> and \<open>warning\<close>, the guard flag unset and an
  identifier (when given) without a newline, \<open>alert\<close> succeeds and returns the banner made of
  the ten lines of the f-string with the margin cut; the banner contains the title, the text, and
  the hidden input element named after the identifier of the call. Without an explicit
  identifier that identifier is the value of the counter, which the call increments.
\<close>

theorem alert_banner_content:
  assumes level: "level = ''info'' \<or> level = ''warning''"
    and guard: "\<not> has_disable_been_called reg"
    and title: "nl \<notin> set title"
    and body: "nl \<notin> set text" "\<not> list_all is_blank text"
    and ident: "\<forall>s. ID = Some s \<longrightarrow> nl \<notin> set s"
  shows "\<exists>banner.
      fst (alert reg title text level ID) = Inr banner
    \<and> banner = join_str [nl] (banner_lines (fst (assign_id reg ID)) level title text)
    \<and> sublist title banner
    \<and> sublist text banner
    \<and> sublist (hidden_input (fst (assign_id reg ID))) banner
    \<and> (ID = None \<longrightarrow> fst (assign_id reg ID) = IntId (numid reg)
                      \<and> numid (snd (alert reg title text level ID)) = numid reg + 1)"
proof -
  let ?aid = "fst (assign_id reg ID)"
  let ?ls = "banner_lines ?aid level title text"
  let ?banner = "join_str [nl] ?ls"
  have res: "alert reg title text level ID = (Inr (alert_html ?aid level title text), snd (assign_id reg ID))"
    using level guard by (auto simp: alert_def split: prod.splits)
  have html: "alert_html ?aid level title text = ?banner"
    using assign_id_no_nl [OF ident] level title body(1) by (rule alert_html_single_line)
  have r1: "fst (alert reg title text level ID) = Inr ?banner"
    unfolding res html by simp
  have "sublist title ((''        <h3> '' @ str_title level @ '' - '') @ title @ ''</h3>'')"
    by (rule sublist_appendI)
  then have "sublist title (''        <h3> '' @ str_title level @ '' - '' @ title @ ''</h3>'')"
    by (simp only: append_assoc)
  with banner_lines_mem(2) have s_title: "sublist title ?banner"
    by (rule sublist_join_str)
  have "sublist text (''        '' @ text)"
    by (rule sublist_append_leftI)
  with banner_lines_mem(3) [OF body(2)] have s_text: "sublist text ?banner"
    by (rule sublist_join_str)
  have "sublist (hidden_input ?aid) (hidden_input ?aid)"
    by simp
  with banner_lines_mem(1) have s_input: "sublist (hidden_input ?aid) ?banner"
    by (rule sublist_join_str)
  have auto_id: "ID = None \<longrightarrow> ?aid = IntId (numid reg)
      \<and> numid (snd (alert reg title text level ID)) = numid reg + 1"
    unfolding res by (simp add: assign_id_def)
  from r1 s_title s_text s_input auto_id show ?thesis
    by blast
qed

theorem alert_banner_content_witness:
  "\<exists>banner. fst (alert initial_registry ''Title'' ''Text'' ''info'' None) = Inr banner
     \<and> sublist ''Title'' banner \<and> sublist ''Text'' banner
     \<and> sublist (hidden_input (IntId 0)) banner"
proof -
  have h1: "''info'' = ''info'' \<or> ''info'' = ''warning''" by simp
  have h2: "\<not> has_disable_been_called initial_registry" by (simp add: initial_registry_def)
  have h3: "nl \<notin> set ''Title''" by (simp add: nl_def)
  have h4: "nl \<notin> set ''Text''" by (simp add: nl_def)
  have h5: "\<not> list_all is_blank ''Text''" by (simp add: is_blank_simps)
  have h6: "\<forall>s. (None :: string option) = Some s \<longrightarrow> nl \<notin> set s" by simp
  have a: "fst (assign_id initial_registry None) = IntId 0"
    by (simp add: assign_id_def initial_registry_def)
  from alert_banner_content [OF h1 h2 h3 h4 h5 h6] show ?thesis
    unfolding a by blast
qed

text \<open>
  C8 as stated fails for a text of several lines: every newline of the text is followed by
  indentation in the banner, so the text itself does not occur in it.
\<close>

theorem alert_banner_content_counterexample:
  \<open>fst (alert initial_registry ''Title'' ''a\<newline>b'' ''info'' None) =
     Inr (join_str [nl]
       [''<input type="hidden" class="alert-hidder" name="attr_alert-0" value="0"/>'',
        ''<div class="alert alert-info">'',
        ''    <div>'',
        ''        <h3> Info - Title</h3>'',
        ''        a'',
        ''        b'',
        ''    </div>'',
        ''    <label class="fakebutton">'',
        ''        <input type="checkbox" name="attr_alert-0" value="1" /> '' @ [CHR 0xD7],
        ''    </label>'',
        ''</div>''])
   \<and> \<not> sublist ''a\<newline>b''
         (projr (fst (alert initial_registry ''Title'' ''a\<newline>b'' ''info'' None)))\<close>
  by code_simp

section \<open>Sequential identifiers\<close>

text \<open>
  C3: from the initial registry, a run of N calls to \<open>alert\<close> without an explicit identifier
  and with recognised levels succeeds N times and leaves the counter at N; the call number k
  (counting from 0) is assigned the integer identifier k, its result is the banner generated for
  that identifier, and the banner contains the hidden input element named after k.
\<close>

theorem alert_sequential_ids:
  assumes auto: "\<forall>(title, text, level, ID) \<in> set calls.
      ID = None \<and> (level = ''info'' \<or> level = ''warning'')"
  shows "length (fst (run_alerts initial_registry calls)) = length calls
    \<and> numid (snd (run_alerts initial_registry calls)) = length calls
    \<and> (\<forall>k < length calls.
          fst (assign_id (snd (run_alerts initial_registry (take k calls))) None) = IntId k
        \<and> (case calls ! k of (title, text, level, ID) \<Rightarrow>
              fst (run_alerts initial_registry calls) ! k =
                Inr (alert_html (IntId k) level title text))
        \<and> (\<exists>banner. fst (run_alerts initial_registry calls) ! k = Inr banner
              \<and> sublist (hidden_input (IntId k)) banner))"
proof -
  let ?f = "\<lambda>(k, title, text, level, ID). Inr (alert_html (IntId k) level title text) :: error + string"
  have g: "\<not> has_disable_been_called initial_registry" "numid initial_registry = 0"
    by (simp_all add: initial_registry_def)
  have run: "run_alerts initial_registry calls =
      (map ?f (enumerate 0 calls), initial_registry\<lparr>numid := length calls\<rparr>)"
    using run_alerts_auto [OF auto g(1)] by (simp add: g(2))
  have len: "length (fst (run_alerts initial_registry calls)) = length calls"
    unfolding run by simp
  have cnt: "numid (snd (run_alerts initial_registry calls)) = length calls"
    unfolding run by simp
  have each: "fst (assign_id (snd (run_alerts initial_registry (take k calls))) None) = IntId k
        \<and> (case calls ! k of (title, text, level, ID) \<Rightarrow>
              fst (run_alerts initial_registry calls) ! k =
                Inr (alert_html (IntId k) level title text))
        \<and> (\<exists>banner. fst (run_alerts initial_registry calls) ! k = Inr banner
              \<and> sublist (hidden_input (IntId k)) banner)" if k: "k < length calls" for k
  proof -
    have "\<forall>(title, text, level, ID) \<in> set (take k calls).
        ID = None \<and> (level = ''info'' \<or> level = ''warning'')"
      using auto by (auto dest: in_set_takeD)
    from run_alerts_auto [OF this g(1)] k
    have "snd (run_alerts initial_registry (take k calls)) = initial_registry\<lparr>numid := k\<rparr>"
      by (simp add: g(2) min_def)
    then have a: "fst (assign_id (snd (run_alerts initial_registry (take k calls))) None) = IntId k"
      by (simp add: assign_id_def)
    obtain ttl body lvl ident where c: "calls ! k = (ttl, body, lvl, ident)"
      by (cases "calls ! k") auto
    have nth: "fst (run_alerts initial_registry calls) ! k = Inr (alert_html (IntId k) lvl ttl body)"
      unfolding run using k c by (simp add: nth_enumerate_eq)
    have "sublist (hidden_input (IntId k)) (alert_html (IntId k) lvl ttl body)"
      by (rule alert_html_hidden_input) (simp add: str_nat_no_nl)
    with a nth c show ?thesis
      by simp
  qed
  from len cnt each show ?thesis
    by blast
qed

theorem alert_sequential_ids_witness:
  "numid (snd (run_alerts initial_registry
      [(''First'', ''one'', ''info'', None), (''Second'', ''two'', ''warning'', None)])) = 2
   \<and> fst (run_alerts initial_registry
      [(''First'', ''one'', ''info'', None), (''Second'', ''two'', ''warning'', None)]) ! 1
       = Inr (alert_html (IntId 1) ''warning'' ''Second'' ''two'')
   \<and> (\<exists>banner. fst (run_alerts initial_registry
      [(''First'', ''one'', ''info'', None), (''Second'', ''two'', ''warning'', None)]) ! 1 = Inr banner
        \<and> sublist (hidden_input (IntId 1)) banner)"
proof -
  let ?calls = "[(''First'', ''one'', ''info'', None :: string option), (''Second'', ''two'', ''warning'', None)]"
  have h: "\<forall>(title, text, level, ID) \<in> set ?calls.
      ID = None \<and> (level = ''info'' \<or> level = ''warning'')"
    by simp
  have k: "(1::nat) < length ?calls" by simp
  note t = alert_sequential_ids [OF h]
  have n: "numid (snd (run_alerts initial_registry ?calls)) = length ?calls"
    by (rule conjunct1 [OF conjunct2 [OF t]])
  have e: "(case ?calls ! 1 of (title, text, level, ID) \<Rightarrow>
              fst (run_alerts initial_registry ?calls) ! 1 =
                Inr (alert_html (IntId 1) level title text))
        \<and> (\<exists>banner. fst (run_alerts initial_registry ?calls) ! 1 = Inr banner
              \<and> sublist (hidden_input (IntId 1)) banner)"
    by (rule conjunct2 [OF mp [OF spec [OF conjunct2 [OF conjunct2 [OF t]]] k]])
  have c: "?calls ! 1 = (''Second'', ''two'', ''warning'', None)"
    by simp
  from n have n2: "numid (snd (run_alerts initial_registry ?calls)) = 2"
    by (simp del: run_alerts.simps)
  from e have e2: "fst (run_alerts initial_registry ?calls) ! 1 =
                Inr (alert_html (IntId 1) ''warning'' ''Second'' ''two'')
        \<and> (\<exists>banner. fst (run_alerts initial_registry ?calls) ! 1 = Inr banner
              \<and> sublist (hidden_input (IntId 1)) banner)"
    unfolding c prod.case .
  from n2 e2 show ?thesis
    by blast
qed

section \<open>What the closing script lists\<close>

text \<open>
  C4, as amended: after a run of successful calls to \<open>alert\<close> from the initial registry, the
  closing script has one entry per call: the entries of the integers below the number of calls
  without an explicit identifier, then the entries of the explicit identifiers in call order.
  An entry is written from the formatted identifier, so the entry of an identifier occurs once
  for the auto-assigned integer that formats to the same text, if there is one, plus once for
  every call that passed that text as explicit identifier. Every entry occurs exactly once when
  the explicit identifiers are pairwise distinct and none of them is the decimal numeral of an
  auto-assigned integer. With a marker and explicit identifiers free of newlines, the returned
  fragment is the \<open>setAttrs\<close> call whose first entry is the marker and whose other entries
  are those, one per line.
\<close>

theorem disable_old_alerts_lists_ids:
  assumes ok: "\<forall>r \<in> set (fst (run_alerts initial_registry calls)). \<not> isl r"
  shows \<open>listed_ids (snd (run_alerts initial_registry calls)) =
            map IntId [0..<auto_count calls] @ map StrId (explicit_ids calls)
    \<and> map format_id (listed_ids (snd (run_alerts initial_registry calls))) =
            map str_nat [0..<auto_count calls] @ explicit_ids calls
    \<and> length (listed_ids (snd (run_alerts initial_registry calls))) = length calls
    \<and> (\<forall>i. count_list (map script_entry (listed_ids (snd (run_alerts initial_registry calls))))
                (script_entry i) =
              (if \<exists>k < auto_count calls. str_nat k = format_id i then 1 else 0)
                + count_list (explicit_ids calls) (format_id i))
    \<and> (distinct (explicit_ids calls)
         \<and> (\<forall>k < auto_count calls. str_nat k \<notin> set (explicit_ids calls)) \<longrightarrow>
          distinct (map script_entry (listed_ids (snd (run_alerts initial_registry calls)))))
    \<and> (nl \<notin> set marker \<and> (\<forall>s \<in> set (explicit_ids calls). nl \<notin> set s) \<longrightarrow>
          fst (disable_old_alerts (snd (run_alerts initial_registry calls)) marker) =
            ''setAttrs({'' @ [nl] @ ''    "'' @ marker @ ''": 1,'' @ [nl]
            @ join_str ('','' @ [nl])
                (map (\<lambda>i. ''    '' @ script_entry i)
                   (listed_ids (snd (run_alerts initial_registry calls))))
            @ [nl] @ ''}); '')\<close>
proof -
  let ?reg = "snd (run_alerts initial_registry calls)"
  let ?c = "auto_count calls"
  let ?es = "explicit_ids calls"
  have st: "?reg = initial_registry\<lparr>numid := ?c, strid := ?es\<rparr>"
    using run_alerts_success [OF ok] by (simp add: initial_registry_def)
  have ids: "listed_ids ?reg = map IntId [0..<?c] @ map StrId ?es"
    unfolding st by (simp add: listed_ids_def)
  have names: "map format_id (listed_ids ?reg) = map str_nat [0..<?c] @ ?es"
    unfolding ids by (rule format_listed_ids)
  have len: "length (listed_ids ?reg) = length calls"
    unfolding ids using count_ids_length [of calls] by simp
  have cnt: "count_list (map script_entry (listed_ids ?reg)) (script_entry i) =
      (if \<exists>k < ?c. str_nat k = format_id i then 1 else 0) + count_list ?es (format_id i)" for i
    unfolding count_list_script_entry names
    by (simp only: count_list_append count_list_str_nat)
  have once: "distinct (map script_entry (listed_ids ?reg))"
    if d: "distinct ?es" and n: "\<forall>k < ?c. str_nat k \<notin> set ?es"
  proof (rule distinct_script_entry)
    have "set (map str_nat [0..<?c]) \<inter> set ?es = {}"
      using n by auto
    with d distinct_str_nat [of ?c] show "distinct (map format_id (listed_ids ?reg))"
      unfolding names by simp
  qed
  have out: \<open>fst (disable_old_alerts ?reg marker) =
            ''setAttrs({'' @ [nl] @ ''    "'' @ marker @ ''": 1,'' @ [nl]
            @ join_str ('','' @ [nl]) (map (\<lambda>i. ''    '' @ script_entry i) (listed_ids ?reg))
            @ [nl] @ ''}); ''\<close>
    if m: "nl \<notin> set marker" and e: "\<forall>s \<in> set ?es. nl \<notin> set s"
  proof (rule disable_old_alerts_output [OF m])
    show "\<forall>i \<in> set (listed_ids ?reg). nl \<notin> set (format_id i)"
      unfolding ids using e by (auto simp: str_nat_no_nl)
  qed
  from ids names len cnt once out show ?thesis
    by blast
qed

theorem disable_old_alerts_lists_ids_witness:
  "map isl (fst (run_alerts initial_registry
      [(''First'', ''one'', ''info'', None), (''Second'', ''two'', ''warning'', Some ''note'')]))
     = [False, False]
   \<and> map format_id (listed_ids (snd (run_alerts initial_registry
      [(''First'', ''one'', ''info'', None), (''Second'', ''two'', ''warning'', Some ''note'')])))
     = [''0'', ''note'']
   \<and> distinct (map script_entry (listed_ids (snd (run_alerts initial_registry
      [(''First'', ''one'', ''info'', None), (''Second'', ''two'', ''warning'', Some ''note'')]))))"
proof -
  let ?calls = "[(''First'', ''one'', ''info'', None), (''Second'', ''two'', ''warning'', Some ''note'')]"
  have m: "map isl (fst (run_alerts initial_registry ?calls)) = [False, False]"
    by (simp add: alert_def assign_id_def initial_registry_def)
  have h: "\<forall>r \<in> set (fst (run_alerts initial_registry ?calls)). \<not> isl r"
    by (simp add: alert_def assign_id_def initial_registry_def)
  note t = disable_old_alerts_lists_ids [OF h, of "''seen''"]
  have a: "auto_count ?calls = 1" "explicit_ids ?calls = [''note'']"
    by (simp_all add: auto_count_def explicit_ids_def List.map_filter_simps)
  have z: "str_nat 0 = ''0''"
    by code_simp
  have names: "map format_id (listed_ids (snd (run_alerts initial_registry ?calls))) = [''0'', ''note'']"
    using conjunct1 [OF conjunct2 [OF t]] unfolding a by (simp add: z)
  have p: "distinct (explicit_ids ?calls)
         \<and> (\<forall>k < auto_count ?calls. str_nat k \<notin> set (explicit_ids ?calls))"
    unfolding a by (simp add: z)
  have "distinct (map script_entry (listed_ids (snd (run_alerts initial_registry ?calls))))"
    using conjunct1 [OF conjunct2 [OF conjunct2 [OF conjunct2 [OF conjunct2 [OF t]]]]] p
    by (rule mp)
  with m names show ?thesis
    by blast
qed

text \<open>
  C4 as stated fails when an explicit identifier is passed twice: it is registered twice and
  the closing script lists its entry twice.
\<close>

theorem disable_old_alerts_lists_ids_counterexample:
  \<open>map isl (fst (run_alerts initial_registry
      [(''First'', ''one'', ''info'', Some ''x''), (''Second'', ''two'', ''info'', Some ''x'')]))
     = [False, False]
   \<and> count_list (map script_entry (listed_ids (snd (run_alerts initial_registry
      [(''First'', ''one'', ''info'', Some ''x''), (''Second'', ''two'', ''info'', Some ''x'')]))))
        (script_entry (StrId ''x'')) = 2
   \<and> fst (disable_old_alerts (snd (run_alerts initial_registry
      [(''First'', ''one'', ''info'', Some ''x''), (''Second'', ''two'', ''info'', Some ''x'')])) ''seen'')
     = ''setAttrs({'' @ [nl]
       @ ''    "seen": 1,'' @ [nl]
       @ ''    "alert-x": 1,'' @ [nl]
       @ ''    "alert-x": 1'' @ [nl]
       @ ''}); ''\<close>
  by code_simp

section \<open>Text colour by luminance\<close>



section \<open>Three rule blocks per colour\<close>

text \<open>
  C6: for a list of colours of the form \<open>#RRGGBB\<close> the generator yields three rule blocks per
  colour, in input order. The first is selected by the class \<open>sheet-crt-color-\<close> followed by
  the colour name and sets \<open>--header-bg-color\<close> to the hex value; the second is selected by
  \<open>sheet-crt-rlcolor-\<close> followed by the name, on \<open>.inlinerollresult\<close>, and sets
  \<open>--roll-bg-color\<close>; the third is selected by \<open>sheet-crt-btcolor-\<close> followed by the name,
  on \<open>a\<close>, and sets \<open>--button-bg-color\<close>. Each block has nothing else but at most its text
  colour line and the closing brace. The exported string is these blocks joined by newlines
  between \<open>*/\<close> and \<open>/*\<close>.
\<close>

theorem css_rules_three_blocks:
  assumes wf: "\<forall>d \<in> set defs. wf_hex (hex d)"
  shows "\<exists>rules. css_rules [] defs = Inr rules
    \<and> length rules = 3 * length defs
    \<and> (\<forall>k < length defs. \<exists>h r b.
            (h = [] \<or> h = [''    --header-text-color: #000;''])
          \<and> (r = [] \<or> r = [''    --roll-text-color: #FFF;''])
          \<and> (b = [] \<or> b = [''    --button-text-color: #000;''])
          \<and> rules ! (3 * k) = join_str [nl]
               ([''.sheet-rolltemplate-custom .sheet-crt-container.sheet-crt-color-''
                   @ color (defs ! k) @ '' {'',
                 ''    --header-bg-color: '' @ hex (defs ! k) @ '';''] @ h @ [''}''])
          \<and> rules ! (3 * k + 1) = join_str [nl]
               ([''.sheet-rolltemplate-custom .sheet-crt-container.sheet-crt-rlcolor-''
                   @ color (defs ! k) @ '' .inlinerollresult {'',
                 ''    --roll-bg-color: '' @ hex (defs ! k) @ '';''] @ r @ [''}''])
          \<and> rules ! (3 * k + 2) = join_str [nl]
               ([''.sheet-rolltemplate-custom .sheet-crt-container.sheet-crt-btcolor-''
                   @ color (defs ! k) @ '' a {'',
                 ''    --button-bg-color: '' @ hex (defs ! k) @ '';''] @ b @ [''}'']))
    \<and> custom_rt_color_css defs = Inr (''*/'' @ [nl] @ join_str [nl] rules @ [nl] @ ''/*'')"
proof -
  let ?rules = "concat (map blocks_of defs)"
  have run: "css_rules [] defs = Inr ?rules"
    using css_rules_wf [OF wf, of "[]"] by simp
  have len3: "\<forall>d \<in> set defs. length (blocks_of d) = 3"
    using wf by (simp add: blocks_of_wf(2))
  have len: "length ?rules = 3 * length defs"
    using len3 by (rule length_concat_3)
  have each: "\<exists>h r b.
            (h = [] \<or> h = [''    --header-text-color: #000;''])
          \<and> (r = [] \<or> r = [''    --roll-text-color: #FFF;''])
          \<and> (b = [] \<or> b = [''    --button-text-color: #000;''])
          \<and> ?rules ! (3 * k) = join_str [nl]
               ([''.sheet-rolltemplate-custom .sheet-crt-container.sheet-crt-color-''
                   @ color (defs ! k) @ '' {'',
                 ''    --header-bg-color: '' @ hex (defs ! k) @ '';''] @ h @ [''}''])
          \<and> ?rules ! (3 * k + 1) = join_str [nl]
               ([''.sheet-rolltemplate-custom .sheet-crt-container.sheet-crt-rlcolor-''
                   @ color (defs ! k) @ '' .inlinerollresult {'',
                 ''    --roll-bg-color: '' @ hex (defs ! k) @ '';''] @ r @ [''}''])
          \<and> ?rules ! (3 * k + 2) = join_str [nl]
               ([''.sheet-rolltemplate-custom .sheet-crt-container.sheet-crt-btcolor-''
                   @ color (defs ! k) @ '' a {'',
                 ''    --button-bg-color: '' @ hex (defs ! k) @ '';''] @ b @ [''}''])"
    if k: "k < length defs" for k
  proof -
    let ?d = "defs ! k"
    from k wf have w: "wf_hex (hex ?d)"
      by simp
    from color_rules_explicit [OF w] obtain h r b where hrb:
      "h = [] \<or> h = [''    --header-text-color: #000;'']"
      "r = [] \<or> r = [''    --roll-text-color: #FFF;'']"
      "b = [] \<or> b = [''    --button-text-color: #000;'']"
      "color_rules ?d = Inr
          [join_str [nl]
             ([''.sheet-rolltemplate-custom .sheet-crt-container.sheet-crt-color-'' @ color ?d @ '' {'',
               ''    --header-bg-color: '' @ hex ?d @ '';''] @ h @ [''}'']),
           join_str [nl]
             ([''.sheet-rolltemplate-custom .sheet-crt-container.sheet-crt-rlcolor-'' @ color ?d
                 @ '' .inlinerollresult {'',
               ''    --roll-bg-color: '' @ hex ?d @ '';''] @ r @ [''}'']),
           join_str [nl]
             ([''.sheet-rolltemplate-custom .sheet-crt-container.sheet-crt-btcolor-'' @ color ?d @ '' a {'',
               ''    --button-bg-color: '' @ hex ?d @ '';''] @ b @ [''}''])]"
      by blast
    have n0: "?rules ! (3 * k + 0) = blocks_of ?d ! 0"
      using len3 k by (rule nth_concat_3) simp
    have n1: "?rules ! (3 * k + 1) = blocks_of ?d ! 1"
      using len3 k by (rule nth_concat_3) simp
    have n2: "?rules ! (3 * k + 2) = blocks_of ?d ! 2"
      using len3 k by (rule nth_concat_3) simp
    have b0: "blocks_of ?d ! 0 = join_str [nl]
             ([''.sheet-rolltemplate-custom .sheet-crt-container.sheet-crt-color-'' @ color ?d @ '' {'',
               ''    --header-bg-color: '' @ hex ?d @ '';''] @ h @ [''}''])"
      and b1: "blocks_of ?d ! 1 = join_str [nl]
             ([''.sheet-rolltemplate-custom .sheet-crt-container.sheet-crt-rlcolor-'' @ color ?d
                 @ '' .inlinerollresult {'',
               ''    --roll-bg-color: '' @ hex ?d @ '';''] @ r @ [''}''])"
      and b2: "blocks_of ?d ! 2 = join_str [nl]
             ([''.sheet-rolltemplate-custom .sheet-crt-container.sheet-crt-btcolor-'' @ color ?d @ '' a {'',
               ''    --button-bg-color: '' @ hex ?d @ '';''] @ b @ [''}''])"
      unfolding blocks_of_def hrb(4) by simp_all
    from n0 have n0': "?rules ! (3 * k) = blocks_of ?d ! 0"
      by simp
    from hrb(1-3) n0' [unfolded b0] n1 [unfolded b1] n2 [unfolded b2] show ?thesis
      by blast
  qed
  have css: "custom_rt_color_css defs = Inr (''*/'' @ [nl] @ join_str [nl] ?rules @ [nl] @ ''/*'')"
    unfolding custom_rt_color_css_def run by simp
  from run len each css show ?thesis
    by blast
qed

theorem css_rules_three_blocks_witness:
  "wf_hex ''#FF0000''
   \<and> (\<exists>rules. css_rules [] [\<lparr>color = ''red'', hex = ''#FF0000''\<rparr>] = Inr rules
         \<and> length rules = 3
         \<and> custom_rt_color_css [\<lparr>color = ''red'', hex = ''#FF0000''\<rparr>] =
             Inr (''*/'' @ [nl] @ join_str [nl] rules @ [nl] @ ''/*''))"
proof -
  have w: "wf_hex ''#FF0000''"
    by code_simp
  then have h: "\<forall>d \<in> set [\<lparr>color = ''red'', hex = ''#FF0000''\<rparr>]. wf_hex (hex d)"
    by simp
  from css_rules_three_blocks [OF h] obtain rules where
    "css_rules [] [\<lparr>color = ''red'', hex = ''#FF0000''\<rparr>] = Inr rules"
    "length rules = 3 * length [\<lparr>color = ''red'', hex = ''#FF0000''\<rparr>]"
    "custom_rt_color_css [\<lparr>color = ''red'', hex = ''#FF0000''\<rparr>] =
       Inr (''*/'' @ [nl] @ join_str [nl] rules @ [nl] @ ''/*'')"
    by blast
  with w show ?thesis
    by auto
qed

section \<open>Merging the tables of the tabs\<close>

text \<open>
  C7: when the colour file is read without error, the export table exists and holds every key
  of the six tables of the tabs; a key is bound to its value in the last of the tables
  \<open>tab_1_character\<close>, ..., \<open>tab_6_sheet\<close> that has it, and to its value in the base table
  when none has it. The merge itself never fails.
\<close>

theorem exports_merge:
  assumes css: "custom_rt_color_css colors = Inr css"
  shows "\<exists>m. EXPORTS xp translation_attrs translation_attrs_setup colors t1 t2 t3 t4 t5 t6 = Inr m
    \<and> dom t1 \<union> dom t2 \<union> dom t3 \<union> dom t4 \<union> dom t5 \<union> dom t6 \<subseteq> dom m
    \<and> (\<forall>k. m k =
          (case t6 k of Some v \<Rightarrow> Some v | None \<Rightarrow>
          (case t5 k of Some v \<Rightarrow> Some v | None \<Rightarrow>
          (case t4 k of Some v \<Rightarrow> Some v | None \<Rightarrow>
          (case t3 k of Some v \<Rightarrow> Some v | None \<Rightarrow>
          (case t2 k of Some v \<Rightarrow> Some v | None \<Rightarrow>
          (case t1 k of Some v \<Rightarrow> Some v | None \<Rightarrow>
             base_exports xp translation_attrs translation_attrs_setup css k)))))))"
proof -
  let ?b = "base_exports xp translation_attrs translation_attrs_setup css"
  let ?m = "?b ++ t1 ++ t2 ++ t3 ++ t4 ++ t5 ++ t6"
  have e: "EXPORTS xp translation_attrs translation_attrs_setup colors t1 t2 t3 t4 t5 t6 = Inr ?m"
    unfolding EXPORTS_def css dict_update_def by simp
  have d: "dom t1 \<union> dom t2 \<union> dom t3 \<union> dom t4 \<union> dom t5 \<union> dom t6 \<subseteq> dom ?m"
    by (simp only: dom_map_add) blast
  have v: "?m k =
          (case t6 k of Some v \<Rightarrow> Some v | None \<Rightarrow>
          (case t5 k of Some v \<Rightarrow> Some v | None \<Rightarrow>
          (case t4 k of Some v \<Rightarrow> Some v | None \<Rightarrow>
          (case t3 k of Some v \<Rightarrow> Some v | None \<Rightarrow>
          (case t2 k of Some v \<Rightarrow> Some v | None \<Rightarrow>
          (case t1 k of Some v \<Rightarrow> Some v | None \<Rightarrow> ?b k))))))" for k
    by (simp add: map_add_def split: option.splits)
  from e d v show ?thesis
    by blast
qed

theorem exports_merge_witness:
  "custom_rt_color_css [] = Inr (''*/'' @ [nl] @ [nl] @ ''/*'')
   \<and> (\<exists>m. EXPORTS (Function ''xp'') (Text ''a'') (Text ''b'') []
            [''name'' \<mapsto> Tab (1::nat), ''xp'' \<mapsto> Tab 2] Map.empty [''name'' \<mapsto> Tab 3]
            Map.empty Map.empty [''sheet'' \<mapsto> Tab 4] = Inr m
          \<and> m ''name'' = Some (Tab 3) \<and> m ''xp'' = Some (Tab 2) \<and> m ''sheet'' = Some (Tab 4))"
proof -
  have c: "custom_rt_color_css [] = Inr (''*/'' @ [nl] @ [nl] @ ''/*'')"
    by (simp add: custom_rt_color_css_def)
  from exports_merge [OF c, of "Function ''xp''" "Text ''a''" "Text ''b''"
      "[''name'' \<mapsto> Tab (1::nat), ''xp'' \<mapsto> Tab 2]" Map.empty "[''name'' \<mapsto> Tab 3]"
      Map.empty Map.empty "[''sheet'' \<mapsto> Tab 4]"]
  obtain m where m: "EXPORTS (Function ''xp'') (Text ''a'') (Text ''b'') []
            [''name'' \<mapsto> Tab (1::nat), ''xp'' \<mapsto> Tab 2] Map.empty [''name'' \<mapsto> Tab 3]
            Map.empty Map.empty [''sheet'' \<mapsto> Tab 4] = Inr m"
    and v: "\<And>k. m k =
          (case [''sheet'' \<mapsto> Tab 4] k of Some v \<Rightarrow> Some v | None \<Rightarrow>
          (case Map.empty k of Some v \<Rightarrow> Some v | None \<Rightarrow>
          (case Map.empty k of Some v \<Rightarrow> Some v | None \<Rightarrow>
          (case [''name'' \<mapsto> Tab 3] k of Some v \<Rightarrow> Some v | None \<Rightarrow>
          (case Map.empty k of Some v \<Rightarrow> Some v | None \<Rightarrow>
          (case [''name'' \<mapsto> Tab (1::nat), ''xp'' \<mapsto> Tab 2] k of Some v \<Rightarrow> Some v | None \<Rightarrow>
             base_exports (Function ''xp'') (Text ''a'') (Text ''b'')
               (''*/'' @ [nl] @ [nl] @ ''/*'') k))))))"
    by blast
  have "m ''name'' = Some (Tab 3)" "m ''xp'' = Some (Tab 2)" "m ''sheet'' = Some (Tab 4)"
    unfolding v by simp_all
  with c m show ?thesis
    by blast
qed

end
